theory Spec2Isabelle
  imports Main "HOL-Library.Sublist" "HOL-Library.Word"
begin

section \<open>Strings, paths and console output\<close>

text \<open>
  JavaScript strings are modelled as \<^typ>\<open>string\<close>: a list of characters with codes
  0 to 255, which is exact on Latin-1 text. The request builder is modelled a second
  time over the 16-bit code units of a JavaScript string (section \<open>The request builder
  over code units\<close>), where the two models are shown to agree on Latin-1 text. A file
  path is a string; \<open>path.join\<close> is applied by the program only to a
  normalised directory path and one directory entry name, where it puts the POSIX
  separator between the two.
\<close>

type_synonym path = string

definition path_join :: "path \<Rightarrow> string \<Rightarrow> path" where
  "path_join dirPath name = dirPath @ ''/'' @ name"

text \<open>
  The \<open>i\<close> flag of a regular expression compares characters after mapping them to upper
  case. The patterns of this program hold ASCII letters and the full stop only, and no
  character outside ASCII is mapped into ASCII, so the mapping is needed on \<open>a\<close> to
  \<open>z\<close> alone.
\<close>

definition toUpperCase :: "char \<Rightarrow> char" where
  "toUpperCase c =
     (case map_of (zip ''abcdefghijklmnopqrstuvwxyz'' ''ABCDEFGHIJKLMNOPQRSTUVWXYZ'') c of
        Some u \<Rightarrow> u
      | None \<Rightarrow> c)"

definition endsWith :: "string \<Rightarrow> string \<Rightarrow> bool" where
  "endsWith s p = (length p \<le> length s \<and> drop (length s - length p) s = p)"

text \<open>
  The wildcard \<open>.\<close> of a regular expression without the \<open>s\<close> flag matches every
  character but a line terminator. Of the four line terminators of JavaScript, line feed
  and carriage return have codes below 256.
\<close>

definition lineTerminator :: "char \<Rightarrow> bool" where
  "lineTerminator c = (c = CHR 0x0A \<or> c = CHR 0x0D)"

text \<open>
  What the program prints: one constructor for each \<open>console.log\<close> call (\<open>Log\<close>) and
  each \<open>console.warn\<close> call (\<open>Warn\<close>) of the source, holding the values that its
  template interpolates.
\<close>

datatype message =
    LogDownloading string
  | LogDownloaded path
  | LogExtracting
  | WarnCouldNotRead path string
  | LogExtracted nat
  | LogRemoving
  | LogRemoved path
  | WarnNotFound path
  | LogParameters "(string \<times> string) list"
  | LogGenerated nat
  | WarnCleanup path string

type_synonym console = "message list"

section \<open>The file model\<close>

datatype file_type = Binary | Text

record FileEntry =
  type :: file_type
  content :: string
  executable :: bool

text \<open>
  The \<open>files\<close> object of the source is a plain JavaScript object used as a dictionary.
  The model is the function from a key to the entry that \<open>files[key]\<close> reads back after
  the assignments of the program. An assignment creates an own property for every key
  but \<open>__proto__\<close>: there it runs the setter that the object inherits, which makes the
  entry the prototype of the object and creates no property. So the value of the map at
  \<open>__proto__\<close> is the prototype of the object when an assignment has replaced it, and
  \<open>__proto__\<close> is never an own key.
\<close>

type_synonym FileModel = "path \<rightharpoonup> FileEntry"

text \<open>\<open>files[key] = entry\<close>.\<close>

definition assignProperty :: "FileModel \<Rightarrow> string \<Rightarrow> FileEntry \<Rightarrow> FileModel" where
  "assignProperty files key entry = files(key \<mapsto> entry)"

text \<open>\<open>Object.keys(files)\<close>, the own properties.\<close>

definition ownKeys :: "FileModel \<Rightarrow> string set" where
  "ownKeys files = dom files - {''__proto__''}"

text \<open>\<open>delete files[key]\<close> removes an own property and leaves the prototype alone.\<close>

definition deleteProperty :: "FileModel \<Rightarrow> string \<Rightarrow> FileModel" where
  "deleteProperty files key = (if key = ''__proto__'' then files else files(key := None))"

text \<open>
  The property names that every plain object inherits from \<open>Object.prototype\<close>; the
  value of each is a function or an object.
\<close>

definition objectPrototypeNames :: "string list" where
  "objectPrototypeNames =
     [''constructor'', ''__defineGetter__'', ''__defineSetter__'', ''hasOwnProperty'',
      ''__lookupGetter__'', ''__lookupSetter__'', ''isPrototypeOf'', ''propertyIsEnumerable'',
      ''toString'', ''valueOf'', ''__proto__'', ''toLocaleString'']"

text \<open>
  The test \<open>if (files[key])\<close>. An entry is an object and so truthy. A key with no entry
  is looked up along the prototype chain: in the entry that an assignment to
  \<open>__proto__\<close> has made the prototype, whose properties are \<open>type\<close> (a non-empty
  string), \<open>content\<close> (truthy unless empty) and \<open>executable\<close> (a boolean), and then
  in \<open>Object.prototype\<close>. Any other key gives \<open>undefined\<close>.
\<close>

definition truthyProperty :: "FileModel \<Rightarrow> string \<Rightarrow> bool" where
  "truthyProperty files key =
     (case files key of
        Some entry \<Rightarrow> True
      | None \<Rightarrow>
          (key \<in> set objectPrototypeNames
           \<or> (case files ''__proto__'' of
                 None \<Rightarrow> False
               | Some proto \<Rightarrow>
                   (key = ''type'' \<or> (key = ''content'' \<and> content proto \<noteq> [])
                    \<or> (key = ''executable'' \<and> executable proto)))))"

section \<open>Classification of an extracted file\<close>

text \<open>
  \<open>/\.(jar|class|png|jpg|jpeg|gif|ico|zip|gz|tar|war|ear)$/i.test(name)\<close>:
  the name ends with a full stop and one of the extensions, letters compared without
  case.
\<close>

definition binaryExtensions :: "string list" where
  "binaryExtensions =
     [''jar'', ''class'', ''png'', ''jpg'', ''jpeg'', ''gif'', ''ico'', ''zip'', ''gz'', ''tar'',
      ''war'', ''ear'']"

definition isBinary :: "string \<Rightarrow> bool" where
  "isBinary name =
     (\<exists>ext \<in> set binaryExtensions.
        endsWith (map toUpperCase name) (map toUpperCase (''.'' @ ext)))"

text \<open>
  \<open>/^(gradlew|gradlew\.bat|.*\.sh)$/i.test(name)\<close>: the whole name is one of the
  two launcher names, or it is any run of characters other than line terminators
  followed by \<open>.sh\<close>; letters compared without case.
\<close>

definition shouldBeExecutable :: "string \<Rightarrow> bool" where
  "shouldBeExecutable name =
     (map toUpperCase name = map toUpperCase ''gradlew''
      \<or> map toUpperCase name = map toUpperCase ''gradlew.bat''
      \<or> (endsWith (map toUpperCase name) (map toUpperCase ''.sh'')
         \<and> \<not> list_ex lineTerminator (take (length name - 3) name)))"

section \<open>Reading the unpacked tree into memory\<close>

text \<open>
  The directory that \<open>readDirectoryRecursive\<close> is called on, as the three file-system
  calls of the walk show it. A directory is missing (\<open>existsSync\<close> is false), or
  \<open>readdirSync\<close> throws, or it lists its entries. An entry that is not a directory is
  read by \<open>readFileSync\<close> (as base64 when its name is binary, as UTF-8 otherwise), which
  throws with a message or returns the content.
\<close>

datatype node =
    FileNode string "string + string"
  | DirNode string dir
and dir =
    Missing
  | Unreadable string
  | Listing "node list"

type_synonym walk_state = "FileModel \<times> console"

definition relativePathOf :: "path \<Rightarrow> string \<Rightarrow> path" where
  "relativePathOf basePath name = (if basePath \<noteq> [] then path_join basePath name else name)"

text \<open>
  The body of the \<open>try\<close> block for one file, with its \<open>catch\<close>: the two tests of
  the name, then the read, which either stores the entry under the relative path or
  throws into the warning.
\<close>

definition readEntry :: "string \<Rightarrow> string + string \<Rightarrow> path \<Rightarrow> walk_state \<Rightarrow> walk_state" where
  "readEntry name readFileSync relativePath st =
     (case readFileSync of
        Inr c \<Rightarrow>
          (if isBinary name
           then (assignProperty (fst st) relativePath
                   \<lparr>type = Binary, content = c, executable = shouldBeExecutable name\<rparr>,
                 snd st)
           else (assignProperty (fst st) relativePath
                   \<lparr>type = Text, content = c, executable = shouldBeExecutable name\<rparr>,
                 snd st))
      | Inl err \<Rightarrow> (fst st, snd st @ [WarnCouldNotRead relativePath err]))"

text \<open>
  \<open>readDirectoryRecursive\<close> and its \<open>for\<close> loop over the entries. An exception of
  \<open>readdirSync\<close> is caught nowhere in the walk: it ends the walk, and the result is
  the message with the state reached (\<open>Some err\<close>); a walk that returns gives \<open>None\<close>.
\<close>

fun readDirectoryRecursive :: "dir \<Rightarrow> path \<Rightarrow> walk_state \<Rightarrow> string option \<times> walk_state"
  and readDirectoryItems :: "node list \<Rightarrow> path \<Rightarrow> walk_state \<Rightarrow> string option \<times> walk_state"
where
  "readDirectoryRecursive Missing basePath st = (None, st)"
| "readDirectoryRecursive (Unreadable err) basePath st = (Some err, st)"
| "readDirectoryRecursive (Listing items) basePath st = readDirectoryItems items basePath st"
| "readDirectoryItems [] basePath st = (None, st)"
| "readDirectoryItems (FileNode name rd # items) basePath st =
     readDirectoryItems items basePath (readEntry name rd (relativePathOf basePath name) st)"
| "readDirectoryItems (DirNode name d # items) basePath st =
     (case readDirectoryRecursive d (relativePathOf basePath name) st of
        (Some err, st') \<Rightarrow> (Some err, st')
      | (None, st') \<Rightarrow> readDirectoryItems items basePath st')"

section \<open>The removal filter\<close>

fun removeEach :: "path list \<Rightarrow> walk_state \<Rightarrow> walk_state" where
  "removeEach [] st = st"
| "removeEach (fileToRemove # rest) st =
     (if truthyProperty (fst st) fileToRemove
      then removeEach rest
             (deleteProperty (fst st) fileToRemove, snd st @ [LogRemoved fileToRemove])
      else removeEach rest (fst st, snd st @ [WarnNotFound fileToRemove]))"

text \<open>
  \<open>removeFiles(files, filesToRemove)\<close>; the list is \<open>None\<close> when the caller passes
  \<open>null\<close> or \<open>undefined\<close>.
\<close>

definition removeFiles :: "FileModel \<Rightarrow> path list option \<Rightarrow> console \<Rightarrow> walk_state" where
  "removeFiles files filesToRemove con =
     (case filesToRemove of
        None \<Rightarrow> (files, con)
      | Some [] \<Rightarrow> (files, con)
      | Some (p # ps) \<Rightarrow> removeEach (p # ps) (files, con @ [LogRemoving]))"

section \<open>The request builder\<close>

text \<open>
  The \<open>options\<close> object of \<open>buildSpringInitializrUrl\<close>. A property with a default in
  the destructuring pattern is optional (\<open>None\<close> is \<open>undefined\<close>); the property
  \<open>type\<close> is named \<open>projectType\<close> here, as the variable that the caller passes for it.
\<close>

record options =
  groupId :: string
  artifactId :: string
  packageName :: string
  projectType :: "string option"
  javaVersion :: "string option"
  platformVersion :: "string option"
  packaging :: "string option"
  dependencies :: "string option"
  description :: "string option"

definition withDefault :: "string option \<Rightarrow> string \<Rightarrow> string" where
  "withDefault v d = (case v of None \<Rightarrow> d | Some x \<Rightarrow> x)"

text \<open>
  \<open>URLSearchParams.toString()\<close>, the \<open>application/x-www-form-urlencoded\<close>
  serialiser: letters, digits and \<open>*-._\<close> stand for themselves, a space becomes
  \<open>+\<close>, and every other character is encoded in UTF-8 (two bytes for a code from 128
  to 255) with each byte written as \<open>%\<close> and two upper-case hexadecimal digits. Pairs
  are written \<open>name=value\<close> in the order of the object's properties and joined by
  \<open>&\<close>.
\<close>

definition unreserved :: "char \<Rightarrow> bool" where
  "unreserved c =
     (c \<in> set ''*-._0123456789ABCDEFGHIJKLMNOPQRSTUVWXYZabcdefghijklmnopqrstuvwxyz'')"

definition hexDigit :: "nat \<Rightarrow> char" where
  "hexDigit n = ''0123456789ABCDEF'' ! n"

definition percentByte :: "nat \<Rightarrow> string" where
  "percentByte n = [CHR ''%'', hexDigit (n div 16), hexDigit (n mod 16)]"

definition serializeChar :: "char \<Rightarrow> string" where
  "serializeChar c =
     (if unreserved c then [c]
      else if c = CHR '' '' then ''+''
      else if (of_char c :: nat) < 128 then percentByte (of_char c)
      else percentByte (192 + (of_char c :: nat) div 64)
           @ percentByte (128 + (of_char c :: nat) mod 64))"

definition serializeString :: "string \<Rightarrow> string" where
  "serializeString s = concat (map serializeChar s)"

fun joinWith :: "string \<Rightarrow> string list \<Rightarrow> string" where
  "joinWith sep [] = []"
| "joinWith sep [x] = x"
| "joinWith sep (x # y # ys) = x @ sep @ joinWith sep (y # ys)"

definition searchParamsToString :: "(string \<times> string) list \<Rightarrow> string" where
  "searchParamsToString params =
     joinWith ''&'' (map (\<lambda>(k, v). serializeString k @ ''='' @ serializeString v) params)"

definition searchParams :: "options \<Rightarrow> (string \<times> string) list" where
  "searchParams opts =
     [(''type'', withDefault (projectType opts) ''gradle-project''),
      (''language'', ''java''),
      (''platformVersion'', withDefault (platformVersion opts) ''3.5.3''),
      (''packaging'', withDefault (packaging opts) ''jar''),
      (''javaVersion'', withDefault (javaVersion opts) ''21''),
      (''groupId'', groupId opts),
      (''artifactId'', artifactId opts),
      (''name'', artifactId opts),
      (''description'', withDefault (description opts) ''Spring Boot project''),
      (''packageName'', packageName opts),
      (''dependencies'', withDefault (dependencies opts) ''web'')]"

definition buildSpringInitializrUrl :: "options \<Rightarrow> string" where
  "buildSpringInitializrUrl opts =
     ''https://start.spring.io/starter.zip?'' @ searchParamsToString (searchParams opts)"

section \<open>The archive fetcher\<close>

text \<open>
  Every \<open>Error\<close> that the program creates or passes on: the two messages of the fetcher
  with the value they interpolate, the message about the missing archive library, and an
  error of a library call (a stream, the file system, the archive library) passed on as
  it is.
\<close>

datatype error =
    StatusError nat
  | DownloadError string
  | MissingAdmZip
  | LibraryError string

text \<open>
  A promise is resolved, rejected, or never settled: an event that no listener of the
  source handles, or an exception thrown inside a listener, leaves it \<open>Pending\<close>.
\<close>

datatype 'a promise = Resolved 'a | Rejected error | Pending

text \<open>
  What the network and the disk do to one request, as the events that Node delivers.
  The request fails before any response (\<open>error\<close> on the request), or a response
  arrives with a status code. The body of a response piped into the write stream ends in
  one of five ways: \<open>finish\<close> on the write stream; \<open>error\<close> on the write stream
  because the file could not be opened (no file is created); \<open>error\<close> on the write
  stream after the file was opened (disk full); \<open>error\<close> on the response stream
  (connection closed before the end of the body); \<open>error\<close> on the request after the
  response began (socket error during the transfer).
\<close>

datatype transfer =
    Finish
  | OpenFailed string
  | WriteFailed string
  | ResponseAborted string
  | SocketError string

datatype response =
    RequestError string
  | Response nat transfer

text \<open>
  The world outside the program: the paths that exist on disk, the GET requests issued so
  far, and the console.
\<close>

record world =
  paths :: "path set"
  requests :: "string list"
  console :: console

definition emit :: "message \<Rightarrow> world \<Rightarrow> world" where
  "emit m w = w\<lparr>console := console w @ [m]\<rparr>"

definition createFile :: "path \<Rightarrow> world \<Rightarrow> world" where
  "createFile p w = w\<lparr>paths := insert p (paths w)\<rparr>"

text \<open>\<open>fs.unlinkSync\<close> throws when there is no file at the path.\<close>

definition unlinkSync :: "path \<Rightarrow> world \<Rightarrow> string + world" where
  "unlinkSync p w =
     (if p \<in> paths w then Inr (w\<lparr>paths := paths w - {p}\<rparr>) else Inl ''ENOENT'')"

definition downloadSpringBootZip ::
  "(string \<Rightarrow> response) \<Rightarrow> string \<Rightarrow> path \<Rightarrow> world \<Rightarrow> path promise \<times> world" where
  "downloadSpringBootZip https_get url outputPath w =
     (let w1 = (emit (LogDownloading url) w)\<lparr>requests := requests w @ [url]\<rparr> in
      case https_get url of
        RequestError msg \<Rightarrow> (Rejected (DownloadError msg), w1)
      | Response statusCode body \<Rightarrow>
          if statusCode \<noteq> 200 then (Rejected (StatusError statusCode), w1)
          else
            (case body of
               Finish \<Rightarrow>
                 (Resolved outputPath, emit (LogDownloaded outputPath) (createFile outputPath w1))
             | OpenFailed err \<Rightarrow>
                 (case unlinkSync outputPath w1 of
                    Inr w2 \<Rightarrow> (Rejected (LibraryError err), w2)
                  | Inl thrown \<Rightarrow> (Pending, w1))
             | WriteFailed err \<Rightarrow>
                 (case unlinkSync outputPath (createFile outputPath w1) of
                    Inr w2 \<Rightarrow> (Rejected (LibraryError err), w2)
                  | Inl thrown \<Rightarrow> (Pending, createFile outputPath w1))
             | ResponseAborted err \<Rightarrow> (Pending, createFile outputPath w1)
             | SocketError err \<Rightarrow> (Rejected (DownloadError err), createFile outputPath w1)))"

section \<open>The archive materializer\<close>

text \<open>
  Every path that \<open>extractAllTo\<close> has put on disk below a directory, for the tree it
  unpacked there.
\<close>

fun pathsBelow :: "path \<Rightarrow> dir \<Rightarrow> path list"
  and pathsOfItems :: "path \<Rightarrow> node list \<Rightarrow> path list"
where
  "pathsBelow dirPath Missing = []"
| "pathsBelow dirPath (Unreadable err) = []"
| "pathsBelow dirPath (Listing items) = pathsOfItems dirPath items"
| "pathsOfItems dirPath [] = []"
| "pathsOfItems dirPath (FileNode name rd # items) =
     path_join dirPath name # pathsOfItems dirPath items"
| "pathsOfItems dirPath (DirNode name d # items) =
     path_join dirPath name # pathsBelow (path_join dirPath name) d @ pathsOfItems dirPath items"

text \<open>
  \<open>extractZipToMemory(zipPath, extractPath)\<close>. The environment says whether
  \<open>require('adm-zip')\<close> succeeds, and what opening the archive and \<open>extractAllTo\<close>
  do: throw, or leave a tree below \<open>extractPath\<close>. An archive that is not on disk
  cannot be opened.
\<close>

definition extractZipToMemory ::
  "bool \<Rightarrow> string + dir \<Rightarrow> path \<Rightarrow> path \<Rightarrow> world \<Rightarrow> (error + FileModel) \<times> world" where
  "extractZipToMemory admZipInstalled extractAllTo zipPath extractPath w =
     (if \<not> admZipInstalled then (Inl MissingAdmZip, w)
      else
        let w1 = emit LogExtracting w in
        if zipPath \<notin> paths w1 then (Inl (LibraryError ''Invalid filename''), w1)
        else
          (case extractAllTo of
             Inl err \<Rightarrow> (Inl (LibraryError err), w1)
           | Inr tree \<Rightarrow>
               let w2 = w1\<lparr>paths := paths w1 \<union> set (pathsBelow extractPath tree)\<rparr> in
               (case readDirectoryRecursive tree [] (Map.empty, console w2) of
                  (Some err, st) \<Rightarrow> (Inl (LibraryError err), w2\<lparr>console := snd st\<rparr>)
                | (None, st) \<Rightarrow>
                    (Inr (fst st),
                     emit (LogExtracted (card (ownKeys (fst st)))) (w2\<lparr>console := snd st\<rparr>)))))"

section \<open>The orchestration wrapper\<close>

text \<open>
  \<open>moduleConfig\<close>: the properties of \<open>generation.baseTemplate.config\<close> that the
  program reads (all \<open>None\<close> when the object is absent) and \<open>generation.files.remove\<close>.
  \<open>scaffoldContext\<close> is the \<open>context\<close> argument: \<open>project.domain\<close>,
  \<open>module.name\<close> and the properties of \<open>module.fieldValues\<close> that the program
  reads.
\<close>

record moduleConfig =
  config_build :: "string option"
  config_javaVersion :: "string option"
  config_platformVersion :: "string option"
  config_packaging :: "string option"
  config_dependencies :: "string option"
  files_remove :: "path list option"

record scaffoldContext =
  context_project_domain :: string
  context_module_name :: string
  fieldValues_buildTool :: "string option"
  fieldValues_javaVersion :: "string option"
  fieldValues_springBootVersion :: "string option"
  fieldValues_packaging :: "string option"
  fieldValues_dependencies :: "string option"

text \<open>
  \<open>a || b || d\<close> on optional strings: the first operand that is truthy, that is
  neither \<open>undefined\<close> nor the empty string; the last operand is a literal.
\<close>

definition truthy :: "string option \<Rightarrow> bool" where
  "truthy v = (v \<noteq> None \<and> v \<noteq> Some [])"

definition firstTruthy :: "string option \<Rightarrow> string option \<Rightarrow> string \<Rightarrow> string" where
  "firstTruthy a b d = (if truthy a then the a else if truthy b then the b else d)"

text \<open>\<open>String.prototype.split\<close> with a one-character separator.\<close>

fun split :: "char \<Rightarrow> string \<Rightarrow> string list" where
  "split sep [] = [[]]"
| "split sep (c # cs) =
     (if c = sep then [] # split sep cs
      else (case split sep cs of [] \<Rightarrow> [[c]] | part # parts \<Rightarrow> (c # part) # parts))"

text \<open>\<open>replace(/[^a-zA-Z0-9]/g, '')\<close>.\<close>

definition alphanumeric :: "char \<Rightarrow> bool" where
  "alphanumeric c =
     (c \<in> set ''abcdefghijklmnopqrstuvwxyzABCDEFGHIJKLMNOPQRSTUVWXYZ0123456789'')"

definition stripNonAlphanumeric :: "string \<Rightarrow> string" where
  "stripNonAlphanumeric s = filter alphanumeric s"

definition scaffoldOptions :: "moduleConfig \<Rightarrow> scaffoldContext \<Rightarrow> options" where
  "scaffoldOptions mc ctx =
     (let domainParts = map stripNonAlphanumeric (split (CHR ''.'') (context_project_domain ctx));
          reversedDomain = joinWith ''.'' (rev domainParts);
          moduleName = stripNonAlphanumeric (context_module_name ctx);
          buildTool = firstTruthy (fieldValues_buildTool ctx) (config_build mc) ''gradle'';
          projectType = (if buildTool = ''maven'' then ''maven-project'' else ''gradle-project'')
      in \<lparr>groupId = reversedDomain,
          artifactId = context_module_name ctx @ ''-api'',
          packageName = reversedDomain @ ''.'' @ moduleName,
          projectType = Some projectType,
          javaVersion =
            Some (firstTruthy (fieldValues_javaVersion ctx) (config_javaVersion mc) ''21''),
          platformVersion =
            Some (firstTruthy (fieldValues_springBootVersion ctx) (config_platformVersion mc)
                    ''3.5.3''),
          packaging = Some (firstTruthy (fieldValues_packaging ctx) (config_packaging mc) ''jar''),
          dependencies =
            Some (firstTruthy (fieldValues_dependencies ctx) (config_dependencies mc)
                    ''web,lombok''),
          description = Some (''Spring Boot project for '' @ context_module_name ctx)\<rparr>)"

definition loggedParameters :: "options \<Rightarrow> (string \<times> string) list" where
  "loggedParameters opts =
     [(''groupId'', groupId opts),
      (''artifactId'', artifactId opts),
      (''packageName'', packageName opts),
      (''type'', withDefault (projectType opts) []),
      (''javaVersion'', withDefault (javaVersion opts) []),
      (''platformVersion'', withDefault (platformVersion opts) []),
      (''packaging'', withDefault (packaging opts) [])]"

text \<open>
  What the environment does to the calls of one invocation: \<open>mkdtempSync\<close> throws or
  creates a fresh directory and returns its path; the server answers the request;
  \<open>mkdirSync\<close> may throw; the archive library may be missing; opening and unpacking
  the archive throws or leaves a tree; \<open>rmSync\<close> may throw.
\<close>

record environment =
  mkdtempSync :: "string + path"
  https_get :: "string \<Rightarrow> response"
  mkdirSync :: "string option"
  admZipInstalled :: bool
  extractAllTo :: "string + dir"
  rmSync :: "string option"

definition inside :: "path \<Rightarrow> path \<Rightarrow> bool" where
  "inside dirPath p = (p = dirPath \<or> prefix (dirPath @ ''/'') p)"

text \<open>The \<open>try\<close> block of \<open>scaffold\<close>; \<open>await\<close> on a pending promise never resumes.\<close>

definition tryBlock ::
  "moduleConfig \<Rightarrow> environment \<Rightarrow> string \<Rightarrow> path \<Rightarrow> world \<Rightarrow> FileModel promise \<times> world" where
  "tryBlock mc env url tempDir w =
     (let zipPath = path_join tempDir ''starter.zip'';
          extractPath = path_join tempDir ''extracted''
      in case downloadSpringBootZip (https_get env) url zipPath w of
           (Pending, w1) \<Rightarrow> (Pending, w1)
         | (Rejected e, w1) \<Rightarrow> (Rejected e, w1)
         | (Resolved downloaded, w1) \<Rightarrow>
             (case mkdirSync env of
                Some err \<Rightarrow> (Rejected (LibraryError err), w1)
              | None \<Rightarrow>
                  (case extractZipToMemory (admZipInstalled env) (extractAllTo env) zipPath
                          extractPath (createFile extractPath w1) of
                     (Inl e, w2) \<Rightarrow> (Rejected e, w2)
                   | (Inr files, w2) \<Rightarrow>
                       let filesToRemove = (case files_remove mc of None \<Rightarrow> [] | Some l \<Rightarrow> l);
                           cleaned = removeFiles files (Some filesToRemove) (console w2)
                       in (Resolved (fst cleaned),
                           emit (LogGenerated (card (ownKeys (fst cleaned))))
                             (w2\<lparr>console := snd cleaned\<rparr>)))))"

text \<open>
  The \<open>finally\<close> block, which runs when the \<open>try\<close> block has returned or thrown:
  \<open>rmSync\<close> with \<open>recursive\<close> and \<open>force\<close> removes the directory and all below
  it, or throws into the warning.
\<close>

definition finallyBlock ::
  "environment \<Rightarrow> path \<Rightarrow> FileModel promise \<times> world \<Rightarrow> FileModel promise \<times> world" where
  "finallyBlock env tempDir outcome =
     (case fst outcome of
        Pending \<Rightarrow> outcome
      | settled \<Rightarrow>
          (case rmSync env of
             None \<Rightarrow>
               (fst outcome,
                (snd outcome)\<lparr>paths := {p \<in> paths (snd outcome). \<not> inside tempDir p}\<rparr>)
           | Some err \<Rightarrow> (fst outcome, emit (WarnCleanup tempDir err) (snd outcome))))"

definition scaffold ::
  "moduleConfig \<Rightarrow> scaffoldContext \<Rightarrow> environment \<Rightarrow> world \<Rightarrow> FileModel promise \<times> world" where
  "scaffold mc ctx env w =
     (let opts = scaffoldOptions mc ctx;
          url = buildSpringInitializrUrl opts;
          w0 = emit (LogParameters (loggedParameters opts)) w
      in case mkdtempSync env of
           Inl err \<Rightarrow> (Rejected (LibraryError err), w0)
         | Inr tempDir \<Rightarrow> finallyBlock env tempDir (tryBlock mc env url tempDir (createFile tempDir w0)))"

section \<open>The request builder over code units\<close>

text \<open>
  A JavaScript string is a sequence of 16-bit code units. A code unit from D800 to DBFF
  (a high surrogate) followed by one from DC00 to DFFF (a low surrogate) stands for one
  code point from 10000 to 10FFFF; a surrogate that is not part of such a pair is a lone
  surrogate.
\<close>

type_synonym jsString = "16 word list"

definition highSurrogate :: "16 word \<Rightarrow> bool" where
  "highSurrogate u = (0xD800 \<le> unat u \<and> unat u < 0xDC00)"

definition lowSurrogate :: "16 word \<Rightarrow> bool" where
  "lowSurrogate u = (0xDC00 \<le> unat u \<and> unat u < 0xE000)"

text \<open>
  \<open>new URLSearchParams(object)\<close> converts every name and value to a string of scalar
  values: a surrogate pair becomes its code point, and every lone surrogate becomes the
  replacement character FFFD.
\<close>

fun toScalarValues :: "jsString \<Rightarrow> nat list" where
  "toScalarValues [] = []"
| "toScalarValues [u] = (if highSurrogate u \<or> lowSurrogate u then [0xFFFD] else [unat u])"
| "toScalarValues (u # l # rest) =
     (if highSurrogate u \<and> lowSurrogate l
      then (0x10000 + (unat u - 0xD800) * 0x400 + (unat l - 0xDC00)) # toScalarValues rest
      else if highSurrogate u \<or> lowSurrogate u then 0xFFFD # toScalarValues (l # rest)
      else unat u # toScalarValues (l # rest))"

text \<open>The UTF-8 bytes of a scalar value: one to four bytes.\<close>

definition utf8Encode :: "nat \<Rightarrow> nat list" where
  "utf8Encode cp =
     (if cp < 0x80 then [cp]
      else if cp < 0x800 then [0xC0 + cp div 0x40, 0x80 + cp mod 0x40]
      else if cp < 0x10000
        then [0xE0 + cp div 0x1000, 0x80 + cp div 0x40 mod 0x40, 0x80 + cp mod 0x40]
      else [0xF0 + cp div 0x40000, 0x80 + cp div 0x1000 mod 0x40,
            0x80 + cp div 0x40 mod 0x40, 0x80 + cp mod 0x40])"

text \<open>
  \<open>URLSearchParams.toString()\<close> on one byte: the byte of a letter, a digit or one of
  \<open>*-._\<close> is written as that character, the byte 20 (a space) as \<open>+\<close>, and every other
  byte as \<open>%\<close> and two upper-case hexadecimal digits.
\<close>

definition serializeByte :: "nat \<Rightarrow> string" where
  "serializeByte b =
     (if b < 0x80 \<and> unreserved (char_of b) then [char_of b]
      else if b = 0x20 then ''+''
      else percentByte b)"

definition serializeUnits :: "jsString \<Rightarrow> string" where
  "serializeUnits s = concat (map serializeByte (concat (map utf8Encode (toScalarValues s))))"

text \<open>A string literal of the source (ASCII text) as code units.\<close>

definition fromChars :: "string \<Rightarrow> jsString" where
  "fromChars s = map (\<lambda>c. of_nat (of_char c)) s"

text \<open>The \<open>options\<close> object with its properties as code-unit strings.\<close>

record optionsUtf16 =
  groupIdUtf16 :: jsString
  artifactIdUtf16 :: jsString
  packageNameUtf16 :: jsString
  projectTypeUtf16 :: "jsString option"
  javaVersionUtf16 :: "jsString option"
  platformVersionUtf16 :: "jsString option"
  packagingUtf16 :: "jsString option"
  dependenciesUtf16 :: "jsString option"
  descriptionUtf16 :: "jsString option"

definition withDefaultUtf16 :: "jsString option \<Rightarrow> string \<Rightarrow> jsString" where
  "withDefaultUtf16 v d = (case v of None \<Rightarrow> fromChars d | Some x \<Rightarrow> x)"

definition searchParamsToStringUtf16 :: "(jsString \<times> jsString) list \<Rightarrow> string" where
  "searchParamsToStringUtf16 params =
     joinWith ''&'' (map (\<lambda>(k, v). serializeUnits k @ ''='' @ serializeUnits v) params)"

definition searchParamsUtf16 :: "optionsUtf16 \<Rightarrow> (jsString \<times> jsString) list" where
  "searchParamsUtf16 opts =
     [(fromChars ''type'', withDefaultUtf16 (projectTypeUtf16 opts) ''gradle-project''),
      (fromChars ''language'', fromChars ''java''),
      (fromChars ''platformVersion'', withDefaultUtf16 (platformVersionUtf16 opts) ''3.5.3''),
      (fromChars ''packaging'', withDefaultUtf16 (packagingUtf16 opts) ''jar''),
      (fromChars ''javaVersion'', withDefaultUtf16 (javaVersionUtf16 opts) ''21''),
      (fromChars ''groupId'', groupIdUtf16 opts),
      (fromChars ''artifactId'', artifactIdUtf16 opts),
      (fromChars ''name'', artifactIdUtf16 opts),
      (fromChars ''description'',
         withDefaultUtf16 (descriptionUtf16 opts) ''Spring Boot project''),
      (fromChars ''packageName'', packageNameUtf16 opts),
      (fromChars ''dependencies'', withDefaultUtf16 (dependenciesUtf16 opts) ''web'')]"

definition buildSpringInitializrUrlUtf16 :: "optionsUtf16 \<Rightarrow> string" where
  "buildSpringInitializrUrlUtf16 opts =
     ''https://start.spring.io/starter.zip?''
       @ searchParamsToStringUtf16 (searchParamsUtf16 opts)"

text \<open>The options of the Latin-1 model as options over code units.\<close>

definition optionsToUtf16 :: "options \<Rightarrow> optionsUtf16" where
  "optionsToUtf16 opts =
     \<lparr>groupIdUtf16 = fromChars (groupId opts),
      artifactIdUtf16 = fromChars (artifactId opts),
      packageNameUtf16 = fromChars (packageName opts),
      projectTypeUtf16 = map_option fromChars (projectType opts),
      javaVersionUtf16 = map_option fromChars (javaVersion opts),
      platformVersionUtf16 = map_option fromChars (platformVersion opts),
      packagingUtf16 = map_option fromChars (packaging opts),
      dependenciesUtf16 = map_option fromChars (dependencies opts),
      descriptionUtf16 = map_option fromChars (description opts)\<rparr>"

section \<open>Definitions that follow the specification\<close>

text \<open>
  The definitions of this section are not translations of source functions. They state,
  in the words of the specification, what the theorems compare the program with.
\<close>

subsection \<open>Names and extensions\<close>

definition sameIgnoringCase :: "string \<Rightarrow> string \<Rightarrow> bool" where
  "sameIgnoringCase a b = (map toUpperCase a = map toUpperCase b)"

text \<open>A name matches the denylist: it is a stem, a full stop and a listed extension.\<close>

definition spec_binary_name :: "string \<Rightarrow> bool" where
  "spec_binary_name name =
     (\<exists>stem e. name = stem @ ''.'' @ e \<and> (\<exists>ext \<in> set binaryExtensions. sameIgnoringCase e ext))"

text \<open>
  A name matches the allowlist as the claim words it: it is one of the two launcher
  names, or it ends in the shell-script extension (in either case of its letters).
\<close>

definition spec_executable_name :: "string \<Rightarrow> bool" where
  "spec_executable_name name =
     (name = ''gradlew'' \<or> name = ''gradlew.bat''
      \<or> (\<exists>stem e. name = stem @ e \<and> sameIgnoringCase e ''.sh''))"

text \<open>The same with the launcher names compared without case.\<close>

definition amended_executable_name :: "string \<Rightarrow> bool" where
  "amended_executable_name name =
     (sameIgnoringCase name ''gradlew'' \<or> sameIgnoringCase name ''gradlew.bat''
      \<or> (\<exists>stem e. name = stem @ e \<and> sameIgnoringCase e ''.sh''))"

text \<open>The entry that the walk stores for a file that is read.\<close>

definition storedEntry :: "string \<Rightarrow> string \<Rightarrow> FileEntry" where
  "storedEntry name c =
     \<lparr>type = (if isBinary name then Binary else Text), content = c,
      executable = shouldBeExecutable name\<rparr>"

subsection \<open>The files of an unpacked tree\<close>

text \<open>
  Every file of a tree with its path relative to the root of the tree, its name and the
  outcome of reading it.
\<close>

fun spec_filesOfDir :: "path \<Rightarrow> dir \<Rightarrow> (path \<times> string \<times> (string + string)) list"
  and spec_filesOfItems :: "path \<Rightarrow> node list \<Rightarrow> (path \<times> string \<times> (string + string)) list"
where
  "spec_filesOfDir basePath Missing = []"
| "spec_filesOfDir basePath (Unreadable err) = []"
| "spec_filesOfDir basePath (Listing items) = spec_filesOfItems basePath items"
| "spec_filesOfItems basePath [] = []"
| "spec_filesOfItems basePath (FileNode name rd # items) =
     (relativePathOf basePath name, name, rd) # spec_filesOfItems basePath items"
| "spec_filesOfItems basePath (DirNode name d # items) =
     spec_filesOfDir (relativePathOf basePath name) d @ spec_filesOfItems basePath items"

fun nodeName :: "node \<Rightarrow> string" where
  "nodeName (FileNode name rd) = name"
| "nodeName (DirNode name d) = name"

text \<open>
  A tree as a file system holds it: the name of an entry is not empty, holds no
  separator and is neither \<open>.\<close> nor \<open>..\<close>, and the entries of one directory have
  different names.
\<close>

definition validName :: "string \<Rightarrow> bool" where
  "validName name =
     (name \<noteq> [] \<and> CHR ''/'' \<notin> set name \<and> name \<noteq> ''.'' \<and> name \<noteq> ''..'')"

fun wellFormedDir :: "dir \<Rightarrow> bool"
  and wellFormedItems :: "node list \<Rightarrow> bool"
  and wellFormedNode :: "node \<Rightarrow> bool"
where
  "wellFormedDir Missing = True"
| "wellFormedDir (Unreadable err) = True"
| "wellFormedDir (Listing items) = wellFormedItems items"
| "wellFormedItems [] = True"
| "wellFormedItems (item # items) =
     (wellFormedNode item \<and> nodeName item \<notin> set (map nodeName items) \<and> wellFormedItems items)"
| "wellFormedNode (FileNode name rd) = validName name"
| "wellFormedNode (DirNode name d) = (validName name \<and> wellFormedDir d)"

text \<open>Every directory of the tree can be listed.\<close>

fun listableDir :: "dir \<Rightarrow> bool"
  and listableItems :: "node list \<Rightarrow> bool"
where
  "listableDir Missing = True"
| "listableDir (Unreadable err) = False"
| "listableDir (Listing items) = listableItems items"
| "listableItems [] = True"
| "listableItems (FileNode name rd # items) = listableItems items"
| "listableItems (DirNode name d # items) = (listableDir d \<and> listableItems items)"

text \<open>
  A path belongs to the entry of a directory with a given name: it is the relative path
  of the entry, or continues it after a separator.
\<close>

definition owned :: "path \<Rightarrow> string \<Rightarrow> path \<Rightarrow> bool" where
  "owned basePath name p =
     (\<exists>s. p = relativePathOf basePath name @ s \<and> (s = [] \<or> hd s = CHR ''/''))"

subsection \<open>Reading a URL back\<close>

text \<open>
  The parser of \<open>application/x-www-form-urlencoded\<close> data: a query is split at
  \<open>&\<close>, each piece at \<open>=\<close>, and name and value are decoded by turning \<open>+\<close> into a
  space and \<open>%\<close> with two hexadecimal digits into a byte, then reading the bytes as
  UTF-8 (of which codes up to 255 need one or two bytes).
\<close>

definition spec_unhex :: "char \<Rightarrow> nat option" where
  "spec_unhex c =
     map_of (zip ''0123456789ABCDEF'' [0, 1, 2, 3, 4, 5, 6, 7, 8, 9, 10, 11, 12, 13, 14, 15]) c"

fun spec_percentDecode :: "string \<Rightarrow> nat list option" where
  "spec_percentDecode [] = Some []"
| "spec_percentDecode (c # cs) =
     (if c = CHR ''%'' then
        (case cs of
           h1 # h2 # rest \<Rightarrow>
             (case (spec_unhex h1, spec_unhex h2) of
                (Some a, Some b) \<Rightarrow> map_option ((#) (16 * a + b)) (spec_percentDecode rest)
              | _ \<Rightarrow> None)
         | _ \<Rightarrow> None)
      else if c = CHR ''+'' then map_option ((#) 32) (spec_percentDecode cs)
      else map_option ((#) (of_char c)) (spec_percentDecode cs))"

fun spec_utf8Decode :: "nat list \<Rightarrow> string option" where
  "spec_utf8Decode [] = Some []"
| "spec_utf8Decode (b # bs) =
     (if b < 128 then map_option ((#) (char_of b)) (spec_utf8Decode bs)
      else if b = 194 \<or> b = 195 then
        (case bs of
           b2 # rest \<Rightarrow>
             (if 128 \<le> b2 \<and> b2 < 192
              then map_option ((#) (char_of ((b - 192) * 64 + (b2 - 128)))) (spec_utf8Decode rest)
              else None)
         | [] \<Rightarrow> None)
      else None)"

definition spec_formDecode :: "string \<Rightarrow> string option" where
  "spec_formDecode s =
     (case spec_percentDecode s of None \<Rightarrow> None | Some bytes \<Rightarrow> spec_utf8Decode bytes)"

definition spec_parsePair :: "string \<Rightarrow> (string \<times> string) option" where
  "spec_parsePair piece =
     (case split (CHR ''='') piece of
        [k, v] \<Rightarrow>
          (case (spec_formDecode k, spec_formDecode v) of
             (Some k', Some v') \<Rightarrow> Some (k', v')
           | _ \<Rightarrow> None)
      | _ \<Rightarrow> None)"

definition spec_parseQuery :: "string \<Rightarrow> (string \<times> string) list option" where
  "spec_parseQuery q = those (map spec_parsePair (split (CHR ''&'') q))"

text \<open>The parameters of a URL of the remote generator, \<open>None\<close> for any other URL.\<close>

definition spec_parseUrl :: "string \<Rightarrow> (string \<times> string) list option" where
  "spec_parseUrl url =
     (if prefix ''https://start.spring.io/starter.zip?'' url
      then spec_parseQuery (drop (length ''https://start.spring.io/starter.zip?'') url)
      else None)"

text \<open>Valid parameters: every field of the options is supplied.\<close>

definition supplied :: "options \<Rightarrow> bool" where
  "supplied opts =
     (projectType opts \<noteq> None \<and> javaVersion opts \<noteq> None \<and> platformVersion opts \<noteq> None
      \<and> packaging opts \<noteq> None \<and> dependencies opts \<noteq> None \<and> description opts \<noteq> None)"

text \<open>The UTF-8 bytes of a character with a code up to 255.\<close>

definition utf8Bytes :: "char \<Rightarrow> nat list" where
  "utf8Bytes c =
     (if (of_char c :: nat) < 128 then [of_char c]
      else [192 + (of_char c :: nat) div 64, 128 + (of_char c :: nat) mod 64])"

subsection \<open>Status codes\<close>

text \<open>A status code of the success class, as the specification words it.\<close>

definition spec_successStatus :: "nat \<Rightarrow> bool" where
  "spec_successStatus statusCode = (200 \<le> statusCode \<and> statusCode < 300)"

subsection \<open>Reading a URL back into code-unit strings\<close>

text \<open>
  A well-formed string: every surrogate is part of a pair of a high surrogate followed
  by a low surrogate.
\<close>

fun wellFormedUtf16 :: "jsString \<Rightarrow> bool" where
  "wellFormedUtf16 [] = True"
| "wellFormedUtf16 [u] = (\<not> highSurrogate u \<and> \<not> lowSurrogate u)"
| "wellFormedUtf16 (u # l # rest) =
     (if highSurrogate u then lowSurrogate l \<and> wellFormedUtf16 rest
      else \<not> lowSurrogate u \<and> wellFormedUtf16 (l # rest))"

text \<open>UTF-8 read back: sequences of one to four bytes, each giving one scalar value.\<close>

definition spec_continuation :: "nat \<Rightarrow> bool" where
  "spec_continuation b = (0x80 \<le> b \<and> b < 0xC0)"

fun spec_utf8DecodeScalars :: "nat list \<Rightarrow> nat list option" where
  "spec_utf8DecodeScalars [] = Some []"
| "spec_utf8DecodeScalars (b # bs) =
     (if b < 0x80 then map_option ((#) b) (spec_utf8DecodeScalars bs)
      else if 0xC0 \<le> b \<and> b < 0xE0 then
        (case bs of
           b2 # rest \<Rightarrow>
             (if spec_continuation b2
              then map_option ((#) ((b - 0xC0) * 0x40 + (b2 - 0x80)))
                     (spec_utf8DecodeScalars rest)
              else None)
         | _ \<Rightarrow> None)
      else if 0xE0 \<le> b \<and> b < 0xF0 then
        (case bs of
           b2 # b3 # rest \<Rightarrow>
             (if spec_continuation b2 \<and> spec_continuation b3
              then map_option ((#) ((b - 0xE0) * 0x1000 + (b2 - 0x80) * 0x40 + (b3 - 0x80)))
                     (spec_utf8DecodeScalars rest)
              else None)
         | _ \<Rightarrow> None)
      else if 0xF0 \<le> b \<and> b < 0xF8 then
        (case bs of
           b2 # b3 # b4 # rest \<Rightarrow>
             (if spec_continuation b2 \<and> spec_continuation b3 \<and> spec_continuation b4
              then map_option
                     ((#) ((b - 0xF0) * 0x40000 + (b2 - 0x80) * 0x1000 + (b3 - 0x80) * 0x40
                           + (b4 - 0x80)))
                     (spec_utf8DecodeScalars rest)
              else None)
         | _ \<Rightarrow> None)
      else None)"

text \<open>
  Scalar values as code units: a value below 10000 is one code unit, a larger one a
  surrogate pair.
\<close>

fun spec_fromScalarValues :: "nat list \<Rightarrow> jsString" where
  "spec_fromScalarValues [] = []"
| "spec_fromScalarValues (cp # cps) =
     (if cp < 0x10000 then of_nat cp # spec_fromScalarValues cps
      else of_nat (0xD800 + (cp - 0x10000) div 0x400)
           # of_nat (0xDC00 + (cp - 0x10000) mod 0x400)
           # spec_fromScalarValues cps)"

definition spec_formDecodeUtf16 :: "string \<Rightarrow> jsString option" where
  "spec_formDecodeUtf16 s =
     (case spec_percentDecode s of
        None \<Rightarrow> None
      | Some bytes \<Rightarrow> map_option spec_fromScalarValues (spec_utf8DecodeScalars bytes))"

definition spec_parsePairUtf16 :: "string \<Rightarrow> (jsString \<times> jsString) option" where
  "spec_parsePairUtf16 piece =
     (case split (CHR ''='') piece of
        [k, v] \<Rightarrow>
          (case (spec_formDecodeUtf16 k, spec_formDecodeUtf16 v) of
             (Some k', Some v') \<Rightarrow> Some (k', v')
           | _ \<Rightarrow> None)
      | _ \<Rightarrow> None)"

definition spec_parseQueryUtf16 :: "string \<Rightarrow> (jsString \<times> jsString) list option" where
  "spec_parseQueryUtf16 q = those (map spec_parsePairUtf16 (split (CHR ''&'') q))"

definition spec_parseUrlUtf16 :: "string \<Rightarrow> (jsString \<times> jsString) list option" where
  "spec_parseUrlUtf16 url =
     (if prefix ''https://start.spring.io/starter.zip?'' url
      then spec_parseQueryUtf16 (drop (length ''https://start.spring.io/starter.zip?'') url)
      else None)"

text \<open>
  Valid parameters over code units: every field of the options is supplied; and
  well-formed parameters: every value that the builder sends is a well-formed string.
\<close>

definition suppliedUtf16 :: "optionsUtf16 \<Rightarrow> bool" where
  "suppliedUtf16 opts =
     (projectTypeUtf16 opts \<noteq> None \<and> javaVersionUtf16 opts \<noteq> None
      \<and> platformVersionUtf16 opts \<noteq> None \<and> packagingUtf16 opts \<noteq> None
      \<and> dependenciesUtf16 opts \<noteq> None \<and> descriptionUtf16 opts \<noteq> None)"

definition wellFormedOptions :: "optionsUtf16 \<Rightarrow> bool" where
  "wellFormedOptions opts = list_all wellFormedUtf16 (map snd (searchParamsUtf16 opts))"

section \<open>Lemmas\<close>

lemma endsWith_suffix: "endsWith s p \<longleftrightarrow> suffix p s"
  unfolding endsWith_def suffix_def
  by (metis append_eq_conv_conj append_take_drop_id diff_add_inverse2 length_append le_add2 length_drop)

lemma endsWith_split: "endsWith s p \<longleftrightarrow> (\<exists>stem. s = stem @ p)"
  by (simp add: endsWith_suffix suffix_def)

lemma endsWith_map_split:
  "endsWith (map f s) p \<longleftrightarrow> (\<exists>stem e. s = stem @ e \<and> map f e = p)"
proof
  assume "endsWith (map f s) p"
  then obtain zs where zs: "map f s = zs @ p" by (auto simp: endsWith_split)
  let ?k = "length zs"
  have "s = take ?k s @ drop ?k s" by simp
  moreover have "map f (drop ?k s) = p"
    using zs by (metis append_eq_conv_conj drop_map)
  ultimately show "\<exists>stem e. s = stem @ e \<and> map f e = p" by blast
next
  assume "\<exists>stem e. s = stem @ e \<and> map f e = p"
  then show "endsWith (map f s) p" by (auto simp: endsWith_split)
qed

lemma endsWith_longer:
  assumes "endsWith u p" and "endsWith u q" and "length p \<le> length q"
  shows "endsWith q p"
  using assms suffix_length_suffix [of p u q] by (simp add: endsWith_suffix)

lemma toUpperCase_dot: "toUpperCase c = CHR ''.'' \<longleftrightarrow> c = CHR ''.''"
  by (simp add: toUpperCase_def split: option.splits if_splits)

lemma endsWith_dot_ext:
  "endsWith (map toUpperCase name) (map toUpperCase (''.'' @ ext)) \<longleftrightarrow>
        (\<exists>stem e. name = stem @ ''.'' @ e \<and> sameIgnoringCase e ext)"
proof
    assume "endsWith (map toUpperCase name) (map toUpperCase (''.'' @ ext))"
    then obtain stem e where se: "name = stem @ e" "map toUpperCase e = map toUpperCase (''.'' @ ext)"
      by (auto simp: endsWith_map_split)
    from se(2) obtain c e' where e: "e = c # e'" "toUpperCase c = toUpperCase (CHR ''.'')"
       "map toUpperCase e' = map toUpperCase ext"
      by (cases e) auto
    have "toUpperCase (CHR ''.'') = CHR ''.''" by (simp add: toUpperCase_def)
    with e(2) have "c = CHR ''.''" by (simp add: toUpperCase_dot)
    with se e show "\<exists>stem e. name = stem @ ''.'' @ e \<and> sameIgnoringCase e ext"
      by (auto simp: sameIgnoringCase_def)
next
    assume "\<exists>stem e. name = stem @ ''.'' @ e \<and> sameIgnoringCase e ext"
    then show "endsWith (map toUpperCase name) (map toUpperCase (''.'' @ ext))"
      by (auto simp: endsWith_split sameIgnoringCase_def)
qed

lemma isBinary_spec: "isBinary name \<longleftrightarrow> spec_binary_name name"
  unfolding isBinary_def spec_binary_name_def endsWith_dot_ext by blast

lemma sameIgnoringCase_length: "sameIgnoringCase a b \<Longrightarrow> length a = length b"
  unfolding sameIgnoringCase_def by (rule map_eq_imp_length_eq)

lemma endsWith_sh:
  "(endsWith (map toUpperCase name) (map toUpperCase ''.sh'')
         \<and> \<not> list_ex lineTerminator (take (length name - 3) name)) \<longleftrightarrow>
        (\<exists>stem e. name = stem @ e \<and> sameIgnoringCase e ''.sh''
            \<and> (\<forall>c \<in> set stem. \<not> lineTerminator c))" (is "?L \<longleftrightarrow> ?R")
proof
    assume L: ?L
    then obtain stem e where se: "name = stem @ e" "sameIgnoringCase e ''.sh''"
      by (auto simp: endsWith_map_split sameIgnoringCase_def)
    from se(2) have "length e = 3" by (simp add: sameIgnoringCase_length)
    with se(1) have "take (length name - 3) name = stem" by simp
    with L have "\<forall>c \<in> set stem. \<not> lineTerminator c" by (simp add: list_ex_iff)
    with se show ?R by blast
next
    assume ?R
    then obtain stem e where se: "name = stem @ e" "sameIgnoringCase e ''.sh''"
        "\<forall>c \<in> set stem. \<not> lineTerminator c" by blast
    from se(2) have "length e = 3" by (simp add: sameIgnoringCase_length)
    with se(1) have "take (length name - 3) name = stem" by simp
    moreover have "endsWith (map toUpperCase name) (map toUpperCase ''.sh'')"
      using se(1,2) unfolding endsWith_map_split sameIgnoringCase_def by blast
    ultimately show ?L using se(3) by (simp add: list_ex_iff)
qed

lemma shouldBeExecutable_exact:
  "shouldBeExecutable name \<longleftrightarrow>
     sameIgnoringCase name ''gradlew'' \<or> sameIgnoringCase name ''gradlew.bat''
     \<or> (\<exists>stem e. name = stem @ e \<and> sameIgnoringCase e ''.sh''
           \<and> (\<forall>c \<in> set stem. \<not> lineTerminator c))"
  unfolding shouldBeExecutable_def endsWith_sh
  by (simp add: sameIgnoringCase_def)

lemma executable_matches_allowlist: "shouldBeExecutable name \<Longrightarrow> amended_executable_name name"
  unfolding shouldBeExecutable_exact amended_executable_name_def by blast

lemma allowlist_is_executable:
  assumes "\<not> list_ex lineTerminator name" and "amended_executable_name name"
  shows "shouldBeExecutable name"
proof -
  have "\<forall>c \<in> set stem. \<not> lineTerminator c" if "name = stem @ e" for stem e
    using assms(1) that by (auto simp: list_ex_iff)
  with assms(2) show ?thesis
    unfolding shouldBeExecutable_exact amended_executable_name_def by blast
qed

lemma executable_not_binary:
  assumes ex: "shouldBeExecutable name"
  shows "\<not> isBinary name"
proof
  assume "isBinary name"
  then obtain ext where ext: "ext \<in> set binaryExtensions"
    and E: "endsWith (map toUpperCase name) (map toUpperCase (''.'' @ ext))"
    unfolding isBinary_def by blast
  from ex consider
      (wrapper) "map toUpperCase name = map toUpperCase ''gradlew''"
    | (bat) "map toUpperCase name = map toUpperCase ''gradlew.bat''"
    | (sh) "endsWith (map toUpperCase name) (map toUpperCase ''.sh'')"
    unfolding shouldBeExecutable_def by blast
  then show False
  proof cases
    case wrapper
    with E ext show False
      by (auto simp: binaryExtensions_def endsWith_def toUpperCase_def)
  next
    case bat
    with E ext show False
      by (auto simp: binaryExtensions_def endsWith_def toUpperCase_def)
  next
    case sh
    have "length (map toUpperCase ''.sh'') \<le> length (map toUpperCase (''.'' @ ext))"
      using ext by (auto simp: binaryExtensions_def)
    from endsWith_longer [OF sh E this] ext show False
      by (auto simp: binaryExtensions_def endsWith_def toUpperCase_def)
  qed
qed

lemma readEntry_Inr:
  "readEntry name (Inr c) p st = ((fst st)(p \<mapsto> storedEntry name c), snd st)"
  by (simp add: readEntry_def storedEntry_def assignProperty_def)

lemma readEntry_Inl:
  "readEntry name (Inl err) p st = (fst st, snd st @ [WarnCouldNotRead p err])"
  by (simp add: readEntry_def)

lemma walk_returns:
  "listableDir d \<Longrightarrow> fst (readDirectoryRecursive d basePath st) = None"
  "listableItems items \<Longrightarrow> fst (readDirectoryItems items basePath st) = None"
proof (induction d basePath st and items basePath st
       rule: readDirectoryRecursive_readDirectoryItems.induct)
  case (6 name d items basePath st)
  then show ?case by (auto split: prod.splits option.splits)
qed simp_all

lemma readEntry_console: "set (snd st) \<subseteq> set (snd (readEntry name rd p st))"
  by (cases rd) (auto simp: readEntry_Inr readEntry_Inl)

lemma walk_console_grows:
  "set (snd st) \<subseteq> set (snd (snd (readDirectoryRecursive d basePath st)))"
  "set (snd st) \<subseteq> set (snd (snd (readDirectoryItems items basePath st)))"
proof (induction d basePath st and items basePath st
       rule: readDirectoryRecursive_readDirectoryItems.induct)
  case (5 name rd items basePath st)
  then show ?case using readEntry_console by fastforce
next
  case (6 name d items basePath st)
  then show ?case by (fastforce split: prod.splits option.splits)
qed simp_all

lemma walk_warns:
  "(p, n, Inl e) \<in> set (spec_filesOfDir basePath d) \<Longrightarrow>
     fst (readDirectoryRecursive d basePath st) = None \<Longrightarrow>
     WarnCouldNotRead p e \<in> set (snd (snd (readDirectoryRecursive d basePath st)))"
  "(p, n, Inl e) \<in> set (spec_filesOfItems basePath items) \<Longrightarrow>
     fst (readDirectoryItems items basePath st) = None \<Longrightarrow>
     WarnCouldNotRead p e \<in> set (snd (snd (readDirectoryItems items basePath st)))"
proof (induction d basePath st and items basePath st
       rule: readDirectoryRecursive_readDirectoryItems.induct)
  case (5 name rd items basePath st)
  let ?st1 = "readEntry name rd (relativePathOf basePath name) st"
  from "5.prems"(1) consider
      (here) "p = relativePathOf basePath name" "rd = Inl e"
    | (later) "(p, n, Inl e) \<in> set (spec_filesOfItems basePath items)"
    by auto
  then show ?case
  proof cases
    case here
    then have "WarnCouldNotRead p e \<in> set (snd ?st1)" by (simp add: readEntry_Inl)
    then show ?thesis using walk_console_grows(2) [of ?st1 items basePath] by auto
  next
    case later
    then show ?thesis using "5.IH" "5.prems"(2) by simp
  qed
next
  case (6 name d items basePath st)
  obtain r st1 where w1: "readDirectoryRecursive d (relativePathOf basePath name) st = (r, st1)"
    by (cases "readDirectoryRecursive d (relativePathOf basePath name) st") auto
  with "6.prems"(2) have r: "r = None" by (auto split: option.splits)
  from "6.prems"(2) w1 r have w2: "fst (readDirectoryItems items basePath st1) = None" by simp
  from "6.prems"(1) consider
      (here) "(p, n, Inl e) \<in> set (spec_filesOfDir (relativePathOf basePath name) d)"
    | (later) "(p, n, Inl e) \<in> set (spec_filesOfItems basePath items)"
    by auto
  then show ?case
  proof cases
    case here
    with "6.IH"(1) w1 r have "WarnCouldNotRead p e \<in> set (snd st1)" by simp
    then show ?thesis
      using walk_console_grows(2) [of st1 items basePath] w1 r by auto
  next
    case later
    with "6.IH"(2) [OF w1 [symmetric]] r w2 w1 show ?thesis by simp
  qed
qed simp_all

lemma walk_entries:
  "fst (snd (readDirectoryRecursive d basePath st)) p = Some e \<Longrightarrow>
     fst st p = Some e \<or>
     (\<exists>n c. (p, n, Inr c) \<in> set (spec_filesOfDir basePath d) \<and> e = storedEntry n c)"
  "fst (snd (readDirectoryItems items basePath st)) p = Some e \<Longrightarrow>
     fst st p = Some e \<or>
     (\<exists>n c. (p, n, Inr c) \<in> set (spec_filesOfItems basePath items) \<and> e = storedEntry n c)"
proof (induction d basePath st and items basePath st
       rule: readDirectoryRecursive_readDirectoryItems.induct)
  case (5 name rd items basePath st)
  let ?st1 = "readEntry name rd (relativePathOf basePath name) st"
  from "5.IH" "5.prems" consider
      (mid) "fst ?st1 p = Some e"
    | (later) "\<exists>n c. (p, n, Inr c) \<in> set (spec_filesOfItems basePath items) \<and> e = storedEntry n c"
    by auto
  then show ?case
  proof cases
    case mid
    then show ?thesis
      by (cases rd) (auto simp: readEntry_Inr readEntry_Inl split: if_splits)
  next
    case later
    then show ?thesis by auto
  qed
next
  case (6 name d items basePath st)
  obtain r st1 where w1: "readDirectoryRecursive d (relativePathOf basePath name) st = (r, st1)"
    by (cases "readDirectoryRecursive d (relativePathOf basePath name) st") auto
  show ?case
  proof (cases r)
    case (Some err)
    with w1 "6.prems" "6.IH"(1) show ?thesis by auto
  next
    case None
    with w1 "6.prems" have "fst (snd (readDirectoryItems items basePath st1)) p = Some e" by simp
    with "6.IH"(2) [OF w1 [symmetric]] None consider
        (mid) "fst st1 p = Some e"
      | (later) "\<exists>n c. (p, n, Inr c) \<in> set (spec_filesOfItems basePath items) \<and> e = storedEntry n c"
      by auto
    then show ?thesis
    proof cases
      case mid
      with "6.IH"(1) w1 show ?thesis by auto
    next
      case later
      then show ?thesis by auto
    qed
  qed
qed simp_all

lemma walk_frame:
  "p \<notin> fst ` set (spec_filesOfDir basePath d) \<Longrightarrow>
     fst (snd (readDirectoryRecursive d basePath st)) p = fst st p"
  "p \<notin> fst ` set (spec_filesOfItems basePath items) \<Longrightarrow>
     fst (snd (readDirectoryItems items basePath st)) p = fst st p"
proof (induction d basePath st and items basePath st
       rule: readDirectoryRecursive_readDirectoryItems.induct)
  case (5 name rd items basePath st)
  then show ?case
    by (cases rd) (auto simp: readEntry_Inr readEntry_Inl)
next
  case (6 name d items basePath st)
  obtain r st1 where w1: "readDirectoryRecursive d (relativePathOf basePath name) st = (r, st1)"
    by (cases "readDirectoryRecursive d (relativePathOf basePath name) st") auto
  from "6.prems" have a: "p \<notin> fst ` set (spec_filesOfDir (relativePathOf basePath name) d)"
    and b: "p \<notin> fst ` set (spec_filesOfItems basePath items)" by auto
  from "6.IH"(1) [OF a] w1 have m: "fst st1 p = fst st p" by simp
  show ?case
  proof (cases r)
    case (Some err)
    with w1 m show ?thesis by simp
  next
    case None
    with "6.IH"(2) [OF w1 [symmetric] _ b] w1 m show ?thesis by simp
  qed
qed simp_all

lemma takeWhile_name:
  assumes "CHR ''/'' \<notin> set n" and "s = [] \<or> hd s = CHR ''/''"
  shows "takeWhile (\<lambda>c. c \<noteq> CHR ''/'') (n @ s) = n"
proof -
  have "takeWhile (\<lambda>c. c \<noteq> CHR ''/'') s = []"
    using assms(2) by (cases s) auto
  moreover have "\<forall>c \<in> set n. c \<noteq> CHR ''/''" using assms(1) by auto
  ultimately show ?thesis by (simp add: takeWhile_append2)
qed

lemma owned_same_name:
  assumes "validName n1" and "validName n2" and "owned basePath n1 p" and "owned basePath n2 p"
  shows "n1 = n2"
proof -
  from assms(3,4) obtain s1 s2 where
    p1: "p = relativePathOf basePath n1 @ s1" and s1: "s1 = [] \<or> hd s1 = CHR ''/''" and
    p2: "p = relativePathOf basePath n2 @ s2" and s2: "s2 = [] \<or> hd s2 = CHR ''/''"
    unfolding owned_def by blast
  from p1 p2 have "n1 @ s1 = n2 @ s2"
    by (auto simp: relativePathOf_def path_join_def split: if_splits)
  then have "takeWhile (\<lambda>c. c \<noteq> CHR ''/'') (n1 @ s1) = takeWhile (\<lambda>c. c \<noteq> CHR ''/'') (n2 @ s2)"
    by simp
  with assms(1,2) s1 s2 show ?thesis
    by (simp add: takeWhile_name validName_def)
qed

lemma relativePathOf_nonempty: "validName name \<Longrightarrow> relativePathOf basePath name \<noteq> []"
  by (simp add: relativePathOf_def path_join_def validName_def)

lemma files_owned:
  "wellFormedDir d \<Longrightarrow> basePath \<noteq> [] \<Longrightarrow> (p, n, r) \<in> set (spec_filesOfDir basePath d) \<Longrightarrow>
     \<exists>s. p = basePath @ ''/'' @ s"
  "wellFormedItems items \<Longrightarrow> (p, n, r) \<in> set (spec_filesOfItems basePath items) \<Longrightarrow>
     \<exists>item \<in> set items. owned basePath (nodeName item) p"
proof (induction basePath d and basePath items rule: spec_filesOfDir_spec_filesOfItems.induct)
  case (3 basePath items)
  then obtain item where "item \<in> set items" "owned basePath (nodeName item) p" by auto
  with "3.prems"(2) show ?case
    by (auto simp: owned_def relativePathOf_def path_join_def)
next
  case (5 basePath name rd items)
  from "5.prems"(2) consider
      (here) "p = relativePathOf basePath name"
    | (later) "(p, n, r) \<in> set (spec_filesOfItems basePath items)"
    by auto
  then show ?case
  proof cases
    case here
    then have "owned basePath name p" by (simp add: owned_def)
    then show ?thesis by auto
  next
    case later
    with "5.IH" "5.prems"(1) show ?thesis by auto
  qed
next
  case (6 basePath name d items)
  from "6.prems"(2) consider
      (here) "(p, n, r) \<in> set (spec_filesOfDir (relativePathOf basePath name) d)"
    | (later) "(p, n, r) \<in> set (spec_filesOfItems basePath items)"
    by auto
  then show ?case
  proof cases
    case here
    from "6.prems"(1) have "relativePathOf basePath name \<noteq> []" "wellFormedDir d"
      by (simp_all add: relativePathOf_nonempty)
    with "6.IH"(1) here obtain s where "p = relativePathOf basePath name @ ''/'' @ s" by blast
    then have "owned basePath name p" unfolding owned_def by auto
    then show ?thesis by auto
  next
    case later
    with "6.IH"(2) "6.prems"(1) show ?thesis by auto
  qed
qed simp_all

lemma later_items_other_paths:
  assumes wf: "wellFormedItems (item # items)" and own: "owned basePath (nodeName item) p"
  shows "p \<notin> fst ` set (spec_filesOfItems basePath items)"
proof
  assume "p \<in> fst ` set (spec_filesOfItems basePath items)"
  then obtain n r where "(p, n, r) \<in> set (spec_filesOfItems basePath items)" by auto
  with files_owned(2) wf obtain other where
    other: "other \<in> set items" "owned basePath (nodeName other) p" by fastforce
  have valid: "validName (nodeName x)" if "wellFormedNode x" for x
    using that by (cases x) auto
  have all_valid: "wellFormedItems xs \<Longrightarrow> x \<in> set xs \<Longrightarrow> wellFormedNode x" for xs x
    by (induction xs) auto
  from wf other(1) have "validName (nodeName other)" "validName (nodeName item)"
    using valid all_valid by auto
  with own other(2) have "nodeName item = nodeName other" using owned_same_name by blast
  with wf other(1) show False by auto
qed

lemma walk_stores:
  "wellFormedDir d \<Longrightarrow> fst (readDirectoryRecursive d basePath st) = None \<Longrightarrow>
     (p, n, Inr c) \<in> set (spec_filesOfDir basePath d) \<Longrightarrow>
     fst (snd (readDirectoryRecursive d basePath st)) p = Some (storedEntry n c)"
  "wellFormedItems items \<Longrightarrow> fst (readDirectoryItems items basePath st) = None \<Longrightarrow>
     (p, n, Inr c) \<in> set (spec_filesOfItems basePath items) \<Longrightarrow>
     fst (snd (readDirectoryItems items basePath st)) p = Some (storedEntry n c)"
proof (induction d basePath st and items basePath st
       rule: readDirectoryRecursive_readDirectoryItems.induct)
  case (5 name rd items basePath st)
  let ?st1 = "readEntry name rd (relativePathOf basePath name) st"
  from "5.prems"(3) consider
      (here) "p = relativePathOf basePath name" "n = name" "rd = Inr c"
    | (later) "(p, n, Inr c) \<in> set (spec_filesOfItems basePath items)"
    by auto
  then show ?case
  proof cases
    case here
    then have "owned basePath (nodeName (FileNode name rd)) p" by (simp add: owned_def)
    from later_items_other_paths [OF "5.prems"(1) this]
    have "fst (snd (readDirectoryItems items basePath ?st1)) p = fst ?st1 p"
      by (rule walk_frame(2))
    with here show ?thesis by (simp add: readEntry_Inr)
  next
    case later
    with "5.IH" "5.prems"(1,2) show ?thesis by simp
  qed
next
  case (6 name d items basePath st)
  obtain r st1 where w1: "readDirectoryRecursive d (relativePathOf basePath name) st = (r, st1)"
    by (cases "readDirectoryRecursive d (relativePathOf basePath name) st") auto
  with "6.prems"(2) have r: "r = None" by (auto split: option.splits)
  from "6.prems"(2) w1 r have w2: "fst (readDirectoryItems items basePath st1) = None" by simp
  from "6.prems"(1) have wfd: "wellFormedDir d" and wfi: "wellFormedItems items"
    and vn: "validName name" by simp_all
  from "6.prems"(3) consider
      (here) "(p, n, Inr c) \<in> set (spec_filesOfDir (relativePathOf basePath name) d)"
    | (later) "(p, n, Inr c) \<in> set (spec_filesOfItems basePath items)"
    by auto
  then show ?case
  proof cases
    case here
    from "6.IH"(1) [OF wfd _ here] w1 r have mid: "fst st1 p = Some (storedEntry n c)" by simp
    from files_owned(1) [OF wfd relativePathOf_nonempty [OF vn] here]
    obtain s where "p = relativePathOf basePath name @ ''/'' @ s" by blast
    then have "owned basePath (nodeName (DirNode name d)) p" unfolding owned_def by auto
    from later_items_other_paths [OF "6.prems"(1) this]
    have "fst (snd (readDirectoryItems items basePath st1)) p = fst st1 p"
      by (rule walk_frame(2))
    with mid w1 r show ?thesis by simp
  next
    case later
    from "6.IH"(2) [OF w1 [symmetric] _ wfi w2 later] r w1 show ?thesis by simp
  qed
qed simp_all

lemma files_distinct:
  "wellFormedDir d \<Longrightarrow> distinct (map fst (spec_filesOfDir basePath d))"
  "wellFormedItems items \<Longrightarrow> distinct (map fst (spec_filesOfItems basePath items))"
proof (induction basePath d and basePath items rule: spec_filesOfDir_spec_filesOfItems.induct)
  case (5 basePath name rd items)
  have "owned basePath (nodeName (FileNode name rd)) (relativePathOf basePath name)"
    by (simp add: owned_def)
  from later_items_other_paths [OF "5.prems" this] "5.IH" "5.prems" show ?case by simp
next
  case (6 basePath name d items)
  from "6.prems" have wfd: "wellFormedDir d" and wfi: "wellFormedItems items"
    and vn: "validName name" by simp_all
  have "p \<notin> fst ` set (spec_filesOfItems basePath items)"
    if "p \<in> fst ` set (spec_filesOfDir (relativePathOf basePath name) d)" for p
  proof -
    from that obtain n r where "(p, n, r) \<in> set (spec_filesOfDir (relativePathOf basePath name) d)"
      by auto
    from files_owned(1) [OF wfd relativePathOf_nonempty [OF vn] this]
    obtain s where "p = relativePathOf basePath name @ ''/'' @ s" by blast
    then have "owned basePath (nodeName (DirNode name d)) p" unfolding owned_def by auto
    from later_items_other_paths [OF "6.prems" this] show ?thesis .
  qed
  with "6.IH" wfd wfi show ?case by auto
qed simp_all

lemma extractZipToMemory_walk:
  assumes "zipPath \<in> paths w"
  shows "fst (extractZipToMemory True (Inr tree) zipPath extractPath w) =
     (case readDirectoryRecursive tree [] (Map.empty, console w @ [LogExtracting]) of
        (Some err, st) \<Rightarrow> Inl (LibraryError err)
      | (None, st) \<Rightarrow> Inr (fst st))"
  and "set (snd (snd (readDirectoryRecursive tree [] (Map.empty, console w @ [LogExtracting]))))
       \<subseteq> set (console (snd (extractZipToMemory True (Inr tree) zipPath extractPath w)))"
  using assms
  by (auto simp: extractZipToMemory_def emit_def Let_def split: prod.splits option.splits)

lemma extractZipToMemory_Inr:
  assumes "extractZipToMemory installed unzip zipPath extractPath w = (Inr files, w')"
  shows "\<exists>tree con c'. unzip = Inr tree \<and>
           readDirectoryRecursive tree [] (Map.empty, con) = (None, files, c')"
  using assms
  by (fastforce simp: extractZipToMemory_def emit_def Let_def
           split: if_splits sum.splits prod.splits option.splits)

lemma not_truthy_absent: "\<not> truthyProperty files key \<Longrightarrow> files key = None"
  by (cases "files key") (simp_all add: truthyProperty_def)

lemma truthyProperty_after_delete:
  "truthyProperty (deleteProperty files k) p \<Longrightarrow> truthyProperty files p"
  by (auto simp: truthyProperty_def deleteProperty_def split: option.splits if_splits)

lemma ordinary_absent_key:
  assumes "files p = None" and "p \<notin> set objectPrototypeNames" and "files ''__proto__'' = None"
  shows "\<not> truthyProperty files p"
  using assms by (simp add: truthyProperty_def)

lemma removeEach_files:
  "fst (removeEach l st) p = (if p \<in> set l \<and> p \<noteq> ''__proto__'' then None else fst st p)"
proof (induction l arbitrary: st)
  case Nil
  then show ?case by simp
next
  case (Cons x xs)
  show ?case
  proof (cases "truthyProperty (fst st) x")
    case True
    then show ?thesis by (auto simp: Cons.IH deleteProperty_def)
  next
    case False
    then have "fst st x = None" by (rule not_truthy_absent)
    with False show ?thesis by (auto simp: Cons.IH)
  qed
qed

lemma removeEach_console_grows: "set (snd st) \<subseteq> set (snd (removeEach l st))"
proof (induction l arbitrary: st)
  case Nil
  then show ?case by simp
next
  case (Cons x xs)
  show ?case
  proof (cases "truthyProperty (fst st) x")
    case True
    with Cons.IH [of "(deleteProperty (fst st) x, snd st @ [LogRemoved x])"] show ?thesis
      by auto
  next
    case False
    with Cons.IH [of "(fst st, snd st @ [WarnNotFound x])"] show ?thesis by auto
  qed
qed

lemma removeEach_warns:
  "p \<in> set l \<Longrightarrow> \<not> truthyProperty (fst st) p \<Longrightarrow>
     WarnNotFound p \<in> set (snd (removeEach l st))"
proof (induction l arbitrary: st)
  case Nil
  then show ?case by simp
next
  case (Cons x xs)
  show ?case
  proof (cases "x = p")
    case True
    with Cons.prems(2)
    have "removeEach (x # xs) st = removeEach xs (fst st, snd st @ [WarnNotFound p])" by simp
    then show ?thesis
      using removeEach_console_grows [of "(fst st, snd st @ [WarnNotFound p])" xs] by auto
  next
    case False
    with Cons.prems have mem: "p \<in> set xs" by simp
    show ?thesis
    proof (cases "truthyProperty (fst st) x")
      case True
      have "\<not> truthyProperty (deleteProperty (fst st) x) p"
        using Cons.prems(2) truthyProperty_after_delete by blast
      with Cons.IH [OF mem, of "(deleteProperty (fst st) x, snd st @ [LogRemoved x])"] True
      show ?thesis by simp
    next
      case no: False
      with Cons.IH [OF mem, of "(fst st, snd st @ [WarnNotFound x])"] Cons.prems(2)
      show ?thesis by simp
    qed
  qed
qed

lemma removeEach_logs_removed:
  "p \<in> set l \<Longrightarrow> truthyProperty (fst st) p \<Longrightarrow> LogRemoved p \<in> set (snd (removeEach l st))"
proof (induction l arbitrary: st)
  case Nil
  then show ?case by simp
next
  case (Cons x xs)
  show ?case
  proof (cases "x = p")
    case True
    with Cons.prems(2)
    have "removeEach (x # xs) st =
            removeEach xs (deleteProperty (fst st) p, snd st @ [LogRemoved p])"
      by simp
    then show ?thesis
      using removeEach_console_grows [of "(deleteProperty (fst st) p, snd st @ [LogRemoved p])" xs]
      by auto
  next
    case False
    with Cons.prems have mem: "p \<in> set xs" by simp
    show ?thesis
    proof (cases "truthyProperty (fst st) x")
      case True
      have "truthyProperty (deleteProperty (fst st) x) p"
        using Cons.prems(2) False
        by (auto simp: truthyProperty_def deleteProperty_def split: option.splits)
      with Cons.IH [OF mem, of "(deleteProperty (fst st) x, snd st @ [LogRemoved x])"] True
      show ?thesis by simp
    next
      case no: False
      with Cons.IH [OF mem, of "(fst st, snd st @ [WarnNotFound x])"] Cons.prems(2)
      show ?thesis by simp
    qed
  qed
qed

lemma removeEach_absent_not_logged:
  "\<not> truthyProperty (fst st) p \<Longrightarrow> LogRemoved p \<notin> set (snd st) \<Longrightarrow>
     LogRemoved p \<notin> set (snd (removeEach l st))"
proof (induction l arbitrary: st)
  case Nil
  then show ?case by simp
next
  case (Cons x xs)
  show ?case
  proof (cases "truthyProperty (fst st) x")
    case True
    with Cons.prems(1) have ne: "x \<noteq> p" by auto
    have "\<not> truthyProperty (deleteProperty (fst st) x) p"
      using Cons.prems(1) truthyProperty_after_delete by blast
    with True ne Cons.prems(2)
      Cons.IH [of "(deleteProperty (fst st) x, snd st @ [LogRemoved x])"]
    show ?thesis by auto
  next
    case False
    with Cons.prems Cons.IH [of "(fst st, snd st @ [WarnNotFound x])"] show ?thesis by auto
  qed
qed

lemma removeFiles_files:
  "fst (removeFiles files filesToRemove con) p =
     (case filesToRemove of
        None \<Rightarrow> files p
      | Some l \<Rightarrow> if p \<in> set l \<and> p \<noteq> ''__proto__'' then None else files p)"
proof (cases filesToRemove)
  case None
  then show ?thesis by (simp add: removeFiles_def)
next
  case (Some l)
  then show ?thesis
    by (cases l) (simp_all add: removeFiles_def removeEach_files del: removeEach.simps)
qed

text \<open>
  What the removal filter does on ordinary keys. Applied twice with the same list it
  gives the file model that one application gives. A path of the list that has an entry
  loses it and is logged as removed. A path of the list that is absent, is no name that
  the object inherits and meets no replaced prototype is warned about, not logged as
  removed, and stays absent. A path outside the list keeps what it had.
\<close>

lemma removeFiles_twice:
  "fst (removeFiles (fst (removeFiles files filesToRemove con)) filesToRemove con') =
     fst (removeFiles files filesToRemove con)"
  by (rule ext) (simp add: removeFiles_files split: option.splits)

lemma removeFiles_present:
  assumes "p \<in> set l" and "files p = Some e" and "p \<noteq> ''__proto__''"
  shows "fst (removeFiles files (Some l) con) p = None"
    and "LogRemoved p \<in> set (snd (removeFiles files (Some l) con))"
proof -
  show "fst (removeFiles files (Some l) con) p = None"
    using assms by (simp add: removeFiles_files)
  from assms(1) obtain x xs where l: "l = x # xs" by (cases l) auto
  have "truthyProperty files p" using assms(2) by (simp add: truthyProperty_def)
  with assms(1) l show "LogRemoved p \<in> set (snd (removeFiles files (Some l) con))"
    using removeEach_logs_removed [of p l "(files, con @ [LogRemoving])"]
    by (simp add: removeFiles_def del: removeEach.simps)
qed

lemma removeFiles_absent:
  assumes "p \<in> set l" and "files p = None" and "p \<notin> set objectPrototypeNames"
    and "files ''__proto__'' = None"
  shows "fst (removeFiles files (Some l) con) p = None"
    and "WarnNotFound p \<in> set (snd (removeFiles files (Some l) con))"
    and "LogRemoved p \<notin> set (snd (removeFiles files (Some l) []))"
proof -
  show "fst (removeFiles files (Some l) con) p = None"
    using assms by (simp add: removeFiles_files)
  from assms(1) obtain x xs where l: "l = x # xs" by (cases l) auto
  have absent: "\<not> truthyProperty files p"
    using assms(2,3,4) by (rule ordinary_absent_key)
  with assms(1) l show "WarnNotFound p \<in> set (snd (removeFiles files (Some l) con))"
    using removeEach_warns [of p l "(files, con @ [LogRemoving])"]
    by (simp add: removeFiles_def del: removeEach.simps)
  from absent l show "LogRemoved p \<notin> set (snd (removeFiles files (Some l) []))"
    using removeEach_absent_not_logged [of "(files, [LogRemoving])" p l]
    by (simp add: removeFiles_def del: removeEach.simps)
qed

subsection \<open>Reading a serialised query back\<close>

lemma hexDigit_cases:
  assumes "n < (16::nat)"
  shows "n \<in> {0, 1, 2, 3, 4, 5, 6, 7, 8, 9, 10, 11, 12, 13, 14, 15}"
  using assms by (simp add: eval_nat_numeral less_Suc_eq)

lemma unhex_hexDigit: "n < (16::nat) \<Longrightarrow> spec_unhex (hexDigit n) = Some n"
  using hexDigit_cases [of n] by (auto simp: spec_unhex_def hexDigit_def)

lemma hexDigit_mem: "n < (16::nat) \<Longrightarrow> hexDigit n \<in> set ''0123456789ABCDEF''"
  unfolding hexDigit_def by (rule nth_mem) simp

lemma percentDecode_percentByte:
  assumes "n < 256" and "spec_percentDecode r = Some bs"
  shows "spec_percentDecode (percentByte n @ r) = Some (n # bs)"
proof -
  from assms have d: "n div 16 < 16" and m: "n mod 16 < 16" by simp_all
  have "16 * (n div 16) + n mod 16 = n" by simp
  then show ?thesis
    using assms(2) by (simp add: percentByte_def unhex_hexDigit [OF d] unhex_hexDigit [OF m])
qed

lemma unreserved_ascii:
  assumes "unreserved c"
  shows "c \<noteq> CHR ''%''" and "c \<noteq> CHR ''+''" and "c \<noteq> CHR ''&''" and "c \<noteq> CHR ''=''"
    and "(of_char c :: nat) < 128"
  using assms by (auto simp: unreserved_def)

lemma char_div_64: "(of_char c :: nat) div 64 < 4"
  by (rule less_mult_imp_div_less) simp

lemma char_high_div_64:
  assumes "\<not> (of_char c :: nat) < 128"
  shows "2 \<le> (of_char c :: nat) div 64"
proof -
  from assms have "128 \<le> (of_char c :: nat)" by simp
  then have "128 div 64 \<le> (of_char c :: nat) div 64" by (rule div_le_mono)
  then show ?thesis by simp
qed

lemma utf8_lead_byte: "192 + (of_char c :: nat) div 64 < 256"
  using char_div_64 [of c] by linarith

lemma utf8_continuation_byte: "128 + (of_char c :: nat) mod 64 < 256"
proof -
  have "(of_char c :: nat) mod 64 < 64" by simp
  then show ?thesis by linarith
qed

lemma percentDecode_serializeChar:
  assumes r: "spec_percentDecode r = Some bs"
  shows "spec_percentDecode (serializeChar c @ r) = Some (utf8Bytes c @ bs)"
proof -
  consider (plain) "unreserved c"
    | (space) "\<not> unreserved c" "c = CHR '' ''"
    | (ascii) "\<not> unreserved c" "c \<noteq> CHR '' ''" "(of_char c :: nat) < 128"
    | (high) "\<not> unreserved c" "c \<noteq> CHR '' ''" "\<not> (of_char c :: nat) < 128"
    by blast
  then show ?thesis
  proof cases
    case plain
    then show ?thesis
      using unreserved_ascii [OF plain] r
      by (simp add: serializeChar_def utf8Bytes_def)
  next
    case space
    then show ?thesis
      using r by (simp add: serializeChar_def utf8Bytes_def)
  next
    case ascii
    then have "(of_char c :: nat) < 256" by simp
    from percentDecode_percentByte [OF this r] ascii show ?thesis
      by (simp add: serializeChar_def utf8Bytes_def)
  next
    case high
    from percentDecode_percentByte
      [OF utf8_lead_byte percentDecode_percentByte [OF utf8_continuation_byte r]] high
    show ?thesis
      by (simp add: serializeChar_def utf8Bytes_def)
  qed
qed

lemma percentDecode_serializeString:
  assumes "spec_percentDecode r = Some bs"
  shows "spec_percentDecode (serializeString s @ r) = Some (concat (map utf8Bytes s) @ bs)"
proof (induction s)
  case Nil
  then show ?case using assms by (simp add: serializeString_def)
next
  case (Cons c s)
  have "serializeString (c # s) @ r = serializeChar c @ (serializeString s @ r)"
    by (simp add: serializeString_def)
  with percentDecode_serializeChar [OF Cons.IH, of c] show ?case by simp
qed

lemma utf8Decode_utf8Bytes:
  assumes "spec_utf8Decode bs = Some s"
  shows "spec_utf8Decode (utf8Bytes c @ bs) = Some (c # s)"
proof (cases "(of_char c :: nat) < 128")
  case True
  then show ?thesis using assms by (simp add: utf8Bytes_def)
next
  case False
  let ?n = "of_char c :: nat"
  from char_div_64 [of c] char_high_div_64 [OF False]
  have "?n div 64 = 2 \<or> ?n div 64 = 3" by linarith
  then have lead: "192 + ?n div 64 = 194 \<or> 192 + ?n div 64 = 195" by linarith
  then have nl: "\<not> 192 + ?n div 64 < 128" by linarith
  have "char_of (?n div 64 * 64 + ?n mod 64) = c" by simp
  with False lead nl assms show ?thesis by (simp add: utf8Bytes_def)
qed

lemma utf8Decode_concat: "spec_utf8Decode (concat (map utf8Bytes s)) = Some s"
  by (induction s) (simp_all add: utf8Decode_utf8Bytes)

lemma formDecode_serializeString: "spec_formDecode (serializeString s) = Some s"
  using percentDecode_serializeString [of "[]" "[]" s]
  by (simp add: spec_formDecode_def utf8Decode_concat)

lemma hexDigit_not_separator:
  assumes "n < (16::nat)"
  shows "hexDigit n \<noteq> CHR ''&''" and "hexDigit n \<noteq> CHR ''=''"
  using hexDigit_mem [OF assms] by auto

lemma percentByte_no_separator:
  assumes "n < 256"
  shows "CHR ''&'' \<notin> set (percentByte n)" and "CHR ''='' \<notin> set (percentByte n)"
proof -
  from assms have d: "n div 16 < 16" and m: "n mod 16 < 16" by simp_all
  show "CHR ''&'' \<notin> set (percentByte n)"
    using hexDigit_not_separator(1) [OF d] hexDigit_not_separator(1) [OF m]
    by (auto simp: percentByte_def)
  show "CHR ''='' \<notin> set (percentByte n)"
    using hexDigit_not_separator(2) [OF d] hexDigit_not_separator(2) [OF m]
    by (auto simp: percentByte_def)
qed

lemma serializeChar_no_separator:
  "CHR ''&'' \<notin> set (serializeChar c)" "CHR ''='' \<notin> set (serializeChar c)"
proof -
  have n: "(of_char c :: nat) < 256" by simp
  show "CHR ''&'' \<notin> set (serializeChar c)"
    using unreserved_ascii(3) [of c] percentByte_no_separator(1) [OF utf8_lead_byte, of c]
      percentByte_no_separator(1) [OF utf8_continuation_byte, of c]
      percentByte_no_separator(1) [OF n]
    by (auto simp: serializeChar_def)
  show "CHR ''='' \<notin> set (serializeChar c)"
    using unreserved_ascii(4) [of c] percentByte_no_separator(2) [OF utf8_lead_byte, of c]
      percentByte_no_separator(2) [OF utf8_continuation_byte, of c]
      percentByte_no_separator(2) [OF n]
    by (auto simp: serializeChar_def)
qed

lemma serializeString_no_separator:
  "CHR ''&'' \<notin> set (serializeString s)" "CHR ''='' \<notin> set (serializeString s)"
proof -
  have "set (serializeString s) = (\<Union>c \<in> set s. set (serializeChar c))"
    by (simp add: serializeString_def)
  then show "CHR ''&'' \<notin> set (serializeString s)" and "CHR ''='' \<notin> set (serializeString s)"
    using serializeChar_no_separator by blast+
qed

lemma split_no_separator: "sep \<notin> set a \<Longrightarrow> split sep a = [a]"
  by (induction a) auto

lemma split_at_separator: "sep \<notin> set a \<Longrightarrow> split sep (a @ sep # r) = a # split sep r"
  by (induction a) auto

lemma parsePair_serialized:
  "spec_parsePair (serializeString k @ CHR ''='' # serializeString v) = Some (k, v)"
proof -
  have "split (CHR ''='') (serializeString k @ CHR ''='' # serializeString v) =
          [serializeString k, serializeString v]"
    by (simp add: split_at_separator split_no_separator serializeString_no_separator)
  then show ?thesis by (simp add: spec_parsePair_def formDecode_serializeString)
qed

lemma pair_no_ampersand:
  "CHR ''&'' \<notin> set (serializeString k @ CHR ''='' # serializeString v)"
  by (simp add: serializeString_no_separator)

lemma parseQuery_serialized:
  "params \<noteq> [] \<Longrightarrow> spec_parseQuery (searchParamsToString params) = Some params"
proof (induction params)
  case Nil
  then show ?case by simp
next
  case (Cons kv rest)
  obtain k v where kv: "kv = (k, v)" by (cases kv)
  let ?piece = "serializeString k @ CHR ''='' # serializeString v"
  show ?case
  proof (cases rest)
    case Nil
    with kv show ?thesis
      using split_no_separator [OF pair_no_ampersand, of k v]
      by (simp add: spec_parseQuery_def searchParamsToString_def parsePair_serialized)
  next
    case (Cons kv' rest')
    then have "searchParamsToString (kv # rest) = ?piece @ CHR ''&'' # searchParamsToString rest"
      using kv by (simp add: searchParamsToString_def)
    then have "split (CHR ''&'') (searchParamsToString (kv # rest)) =
                 ?piece # split (CHR ''&'') (searchParamsToString rest)"
      using split_at_separator [OF pair_no_ampersand, of k v] by simp
    moreover from Cons Cons.IH have "spec_parseQuery (searchParamsToString rest) = Some rest"
      by simp
    ultimately show ?thesis
      using kv by (simp add: spec_parseQuery_def parsePair_serialized)
  qed
qed

lemma parseUrl_built:
  "spec_parseUrl (buildSpringInitializrUrl opts) = Some (searchParams opts)"
proof -
  have "searchParams opts \<noteq> []" by (simp add: searchParams_def)
  then show ?thesis
    by (simp add: spec_parseUrl_def buildSpringInitializrUrl_def parseQuery_serialized)
qed

text \<open>
  The fallbacks of the builder itself, for a caller that leaves every optional field
  undefined.
\<close>

lemma buildSpringInitializrUrl_fallbacks:
  "spec_parseUrl
     (buildSpringInitializrUrl
        \<lparr>groupId = g, artifactId = a, packageName = n, projectType = None, javaVersion = None,
         platformVersion = None, packaging = None, dependencies = None, description = None\<rparr>)
   = Some [(''type'', ''gradle-project''), (''language'', ''java''),
           (''platformVersion'', ''3.5.3''), (''packaging'', ''jar''), (''javaVersion'', ''21''),
           (''groupId'', g), (''artifactId'', a), (''name'', a),
           (''description'', ''Spring Boot project''), (''packageName'', n),
           (''dependencies'', ''web'')]"
  by (simp add: parseUrl_built searchParams_def withDefault_def)

text \<open>The URL for one set of options, written out.\<close>

lemma buildSpringInitializrUrl_example:
  "buildSpringInitializrUrl
     \<lparr>groupId = ''com.example'', artifactId = ''shop-api'', packageName = ''com.example.shop'',
      projectType = Some ''gradle-project'', javaVersion = Some ''21'',
      platformVersion = Some ''3.5.3'', packaging = Some ''jar'',
      dependencies = Some ''web,lombok'', description = Some ''Spring Boot project for shop''\<rparr>
   = ''https://start.spring.io/starter.zip?type=gradle-project&language=java&platformVersion=3.5.3&packaging=jar&javaVersion=21&groupId=com.example&artifactId=shop-api&name=shop-api&description=Spring+Boot+project+for+shop&packageName=com.example.shop&dependencies=web%2Clombok''"
  by (simp add: buildSpringInitializrUrl_def searchParamsToString_def searchParams_def
        withDefault_def serializeString_def serializeChar_def unreserved_def percentByte_def
        hexDigit_def)

subsection \<open>The request builder over code units\<close>

text \<open>On Latin-1 text the serialiser over code units is the serialiser over characters.\<close>

lemma of_char_less_256: "(of_char c :: nat) < 256"
  by simp

lemma unat_fromChar: "unat (of_nat (of_char c) :: 16 word) = of_char c"
proof -
  have "(of_char c :: nat) < 65536"
    using of_char_less_256 [of c] by linarith
  then show ?thesis by (simp add: unat_of_nat)
qed

lemma fromChar_not_surrogate:
  "\<not> highSurrogate (of_nat (of_char c))" "\<not> lowSurrogate (of_nat (of_char c))"
proof -
  have "(of_char c :: nat) < 256" by simp
  then have "\<not> 55296 \<le> (of_char c :: nat)" by linarith
  then show "\<not> highSurrogate (of_nat (of_char c))" "\<not> lowSurrogate (of_nat (of_char c))"
    by (simp_all add: highSurrogate_def lowSurrogate_def unat_fromChar)
qed

lemma toScalarValues_fromChars: "toScalarValues (fromChars s) = map of_char s"
proof (induction s)
  case Nil
  then show ?case by (simp add: fromChars_def)
next
  case (Cons c s)
  then show ?case
    by (cases s) (simp_all add: fromChars_def fromChar_not_surrogate unat_fromChar)
qed

lemma space_code: "(c = CHR '' '') = ((of_char c :: nat) = 32)"
proof
  assume "c = CHR '' ''" then show "(of_char c :: nat) = 32" by simp
next
  assume "(of_char c :: nat) = 32"
  then have "(of_char c :: nat) = of_char CHR '' ''" by simp
  then show "c = CHR '' ''" by (simp only: of_char_eq_iff)
qed

lemma serializeByte_of_char:
  "concat (map serializeByte (utf8Encode (of_char c))) = serializeChar c"
proof (cases "(of_char c :: nat) < 128")
  case True
  then show ?thesis
    by (simp add: utf8Encode_def serializeByte_def serializeChar_def space_code)
next
  case False
  with unreserved_ascii(5) [of c] have nu: "\<not> unreserved c" by blast
  from False have ns: "c \<noteq> CHR '' ''" by (simp add: space_code)
  have lt: "(of_char c :: nat) < 2048" using of_char_less_256 [of c] by linarith
  have b1: "\<not> 192 + (of_char c :: nat) div 64 < 128" by simp
  have b2: "\<not> 128 + (of_char c :: nat) mod 64 < 128" by simp
  have b3: "192 + (of_char c :: nat) div 64 \<noteq> 32" by simp
  have b4: "128 + (of_char c :: nat) mod 64 \<noteq> 32" by simp
  show ?thesis
    using False nu ns lt b1 b2 b3 b4
    by (simp add: utf8Encode_def serializeByte_def serializeChar_def del: of_char_less_256)
qed

lemma serializeUnits_fromChars: "serializeUnits (fromChars s) = serializeString s"
  by (induction s)
     (simp_all add: serializeUnits_def serializeString_def toScalarValues_fromChars
        serializeByte_of_char)

text \<open>Reading the UTF-8 bytes of scalar values back.\<close>

lemma div_mod_64: "(a::nat) div 64 * 4096 + a mod 64 * 64 = a * 64"
proof -
  have "(a div 64 * 64 + a mod 64) * 64 = a * 64" by (simp only: div_mult_mod_eq)
  then show ?thesis by (simp only: add_mult_distrib mult.assoc)
qed

lemma utf8Encode_bytes: 
  assumes "cp < 0x110000" and "b \<in> set (utf8Encode cp)"
  shows "b < 256"
proof -
  have m: "cp mod 64 < 64" "cp div 64 mod 64 < 64" "cp div 4096 mod 64 < 64" by simp_all
  have d1: "cp < 2048 \<Longrightarrow> cp div 64 < 32" by (rule less_mult_imp_div_less) simp
  have d2: "cp < 65536 \<Longrightarrow> cp div 4096 < 16" by (rule less_mult_imp_div_less) simp
  have d3: "cp div 262144 < 5" using assms(1) by (intro less_mult_imp_div_less) simp
  show ?thesis
    using assms(2) m d1 d2 d3
    by (auto simp: utf8Encode_def split: if_splits)
qed

lemma utf8DecodeScalars_utf8Encode:
  assumes "cp < 0x110000"
  shows "spec_utf8DecodeScalars (utf8Encode cp @ bs) = map_option ((#) cp) (spec_utf8DecodeScalars bs)"
proof -
  have m: "cp mod 64 < 64" "cp div 64 mod 64 < 64" "cp div 4096 mod 64 < 64" by simp_all
  have d1: "cp < 2048 \<Longrightarrow> cp div 64 < 32" by (rule less_mult_imp_div_less) simp
  have d2: "cp < 65536 \<Longrightarrow> cp div 4096 < 16" by (rule less_mult_imp_div_less) simp
  have d3: "cp div 262144 < 5" using assms(1) by (intro less_mult_imp_div_less) simp
  have r2: "cp div 64 * 64 + cp mod 64 = cp" by simp
  have r3: "cp div 4096 * 4096 + cp div 64 mod 64 * 64 + cp mod 64 = cp"
  proof -
    have "cp div 4096 = cp div 64 div 64" by (simp add: div_mult2_eq)
    then have "cp div 4096 * 4096 + cp div 64 mod 64 * 64 = cp div 64 * 64"
      by (simp only: div_mod_64)
    then show ?thesis by simp
  qed
  have r4: "cp div 262144 * 262144 + cp div 4096 mod 64 * 4096 + cp div 64 mod 64 * 64 + cp mod 64 = cp"
  proof -
    have "cp div 262144 = cp div 4096 div 64" by (simp add: div_mult2_eq)
    moreover have "(cp div 4096 div 64 * 64 + cp div 4096 mod 64) * 4096 = cp div 4096 * 4096"
      by (simp only: div_mult_mod_eq)
    then have "cp div 4096 div 64 * 262144 + cp div 4096 mod 64 * 4096 = cp div 4096 * 4096"
      by (simp only: add_mult_distrib mult.assoc)
    ultimately have "cp div 262144 * 262144 + cp div 4096 mod 64 * 4096 = cp div 4096 * 4096"
      by (simp only:)
    with r3 show ?thesis by linarith
  qed
  consider "cp < 128" | "128 \<le> cp" "cp < 2048" | "2048 \<le> cp" "cp < 65536" | "65536 \<le> cp"
    by linarith
  then show ?thesis
  proof cases
    case 1
    then show ?thesis by (simp add: utf8Encode_def)
  next
    case 2
    then have enc: "utf8Encode cp = [192 + cp div 64, 128 + cp mod 64]"
      by (simp add: utf8Encode_def)
    from 2 d1 have "192 + cp div 64 < 224" by simp
    with m(1) r2 show ?thesis
      unfolding enc by (simp add: spec_continuation_def)
  next
    case 3
    then have enc: "utf8Encode cp = [224 + cp div 4096, 128 + cp div 64 mod 64, 128 + cp mod 64]"
      by (simp add: utf8Encode_def)
    from 3 d2 have "224 + cp div 4096 < 240" by simp
    with m r3 show ?thesis
      unfolding enc by (simp add: spec_continuation_def)
  next
    case 4
    then have enc: "utf8Encode cp = [240 + cp div 262144, 128 + cp div 4096 mod 64,
        128 + cp div 64 mod 64, 128 + cp mod 64]"
      by (simp add: utf8Encode_def)
    from d3 have "240 + cp div 262144 < 248" by simp
    with m r4 show ?thesis
      unfolding enc by (simp add: spec_continuation_def)
  qed
qed

lemma utf8DecodeScalars_concat:
  assumes "\<forall>cp \<in> set cps. cp < 0x110000"
  shows "spec_utf8DecodeScalars (concat (map utf8Encode cps)) = Some cps"
  using assms
proof (induction cps)
  case Nil
  then show ?case by simp
next
  case (Cons cp cps)
  then have "cp < 0x110000" and "spec_utf8DecodeScalars (concat (map utf8Encode cps)) = Some cps"
    by simp_all
  with utf8DecodeScalars_utf8Encode [of cp "concat (map utf8Encode cps)"]
  show ?case by simp
qed

lemma unat_unit: "unat (u :: 16 word) < 65536"
  using unsigned_less [of u, where ?'a = nat] by simp

lemma toScalarValues_range: "cp \<in> set (toScalarValues us) \<Longrightarrow> cp < 0x110000"
proof (induction us arbitrary: cp rule: toScalarValues.induct)
  case 1
  then show ?case by simp
next
  case (2 u)
  then show ?case using unat_unit [of u] by (auto split: if_splits)
next
  case (3 u l rest)
  show ?case
  proof (cases "highSurrogate u \<and> lowSurrogate l")
    case True
    then have "(unat u - 0xD800) * 0x400 + (unat l - 0xDC00) < 0x100000"
      unfolding highSurrogate_def lowSurrogate_def by linarith
    with True 3 show ?thesis by auto
  next
    case False
    with 3 show ?thesis using unat_unit [of u] by (auto split: if_splits)
  qed
qed

lemma pair_from_scalar:
  assumes "highSurrogate u" and "lowSurrogate l"
  shows "spec_fromScalarValues
           ((0x10000 + (unat u - 0xD800) * 0x400 + (unat l - 0xDC00)) # cps)
         = u # l # spec_fromScalarValues cps"
proof -
  let ?h = "unat u - 0xD800" and ?l = "unat l - 0xDC00"
  from assms have l: "?l < 0x400" and h: "0xD800 \<le> unat u" and l': "0xDC00 \<le> unat l"
    unfolding highSurrogate_def lowSurrogate_def by linarith+
  have "(?h * 0x400 + ?l) div 0x400 = ?h" using l by simp
  moreover have "(?h * 0x400 + ?l) mod 0x400 = ?l" using l by simp
  moreover have "0xD800 + ?h = unat u" using h by simp
  moreover have "0xDC00 + ?l = unat l" using l' by simp
  ultimately show ?thesis by simp
qed

lemma fromScalarValues_toScalarValues:
  "wellFormedUtf16 us \<Longrightarrow> spec_fromScalarValues (toScalarValues us) = us"
proof (induction us rule: toScalarValues.induct)
  case 1
  then show ?case by simp
next
  case (2 u)
  then show ?case using unat_unit [of u] by simp
next
  case (3 u l rest)
  show ?case
  proof (cases "highSurrogate u")
    case True
    with 3 show ?thesis by (simp add: pair_from_scalar del: spec_fromScalarValues.simps)
  next
    case False
    with 3 show ?thesis using unat_unit [of u] by simp
  qed
qed

text \<open>Reading a serialised string of code units back.\<close>

lemma char_of_byte: "b < 256 \<Longrightarrow> (of_char (char_of b) :: nat) = b"
  by (simp add: of_char_of)

lemma percentDecode_serializeByte:
  assumes b: "b < 256" and r: "spec_percentDecode r = Some bs"
  shows "spec_percentDecode (serializeByte b @ r) = Some (b # bs)"
proof -
  consider (plain) "b < 128" "unreserved (char_of b)"
    | (space) "\<not> (b < 128 \<and> unreserved (char_of b))" "b = 32"
    | (other) "\<not> (b < 128 \<and> unreserved (char_of b))" "b \<noteq> 32"
    by blast
  then show ?thesis
  proof cases
    case plain
    then have "serializeByte b = [char_of b]" by (simp add: serializeByte_def)
    with unreserved_ascii(1,2) [OF plain(2)] r char_of_byte [OF b] show ?thesis
      by simp
  next
    case space
    then have "serializeByte b = ''+''" by (auto simp: serializeByte_def)
    with r space(2) show ?thesis by simp
  next
    case other
    then have "serializeByte b = percentByte b" by (auto simp: serializeByte_def)
    with percentDecode_percentByte [OF b r] show ?thesis by (simp only:)
  qed
qed

lemma percentDecode_serializeBytes:
  assumes "\<forall>b \<in> set bytes. b < 256"
  shows "spec_percentDecode (concat (map serializeByte bytes)) = Some bytes"
  using assms
proof (induction bytes)
  case Nil
  then show ?case by simp
next
  case (Cons b bytes)
  then have "b < 256" and "spec_percentDecode (concat (map serializeByte bytes)) = Some bytes"
    by simp_all
  from percentDecode_serializeByte [OF this] show ?case by simp
qed

lemma utf8_bytes_of_units:
  "\<forall>b \<in> set (concat (map utf8Encode (toScalarValues us))). b < 256"
  using utf8Encode_bytes toScalarValues_range by auto

lemma formDecodeUtf16_serializeUnits:
  assumes "wellFormedUtf16 us"
  shows "spec_formDecodeUtf16 (serializeUnits us) = Some us"
proof -
  have "spec_percentDecode (serializeUnits us) = Some (concat (map utf8Encode (toScalarValues us)))"
    unfolding serializeUnits_def by (rule percentDecode_serializeBytes) (rule utf8_bytes_of_units)
  moreover have "spec_utf8DecodeScalars (concat (map utf8Encode (toScalarValues us)))
                   = Some (toScalarValues us)"
    by (rule utf8DecodeScalars_concat) (simp add: toScalarValues_range)
  ultimately show ?thesis
    using assms by (simp add: spec_formDecodeUtf16_def fromScalarValues_toScalarValues)
qed

lemma serializeByte_no_separator:
  assumes "b < 256"
  shows "CHR ''&'' \<notin> set (serializeByte b)" "CHR ''='' \<notin> set (serializeByte b)"
  using unreserved_ascii(3,4) [of "char_of b"] percentByte_no_separator [OF assms]
  by (auto simp: serializeByte_def)

lemma serializeUnits_no_separator:
  "CHR ''&'' \<notin> set (serializeUnits s)" "CHR ''='' \<notin> set (serializeUnits s)"
proof -
  have "set (serializeUnits s)
          = (\<Union>b \<in> set (concat (map utf8Encode (toScalarValues s))). set (serializeByte b))"
    by (simp add: serializeUnits_def)
  then show "CHR ''&'' \<notin> set (serializeUnits s)" and "CHR ''='' \<notin> set (serializeUnits s)"
    using serializeByte_no_separator utf8_bytes_of_units by blast+
qed

lemma parsePairUtf16_serialized:
  assumes "wellFormedUtf16 k" and "wellFormedUtf16 v"
  shows "spec_parsePairUtf16 (serializeUnits k @ CHR ''='' # serializeUnits v) = Some (k, v)"
proof -
  have "split (CHR ''='') (serializeUnits k @ CHR ''='' # serializeUnits v) =
          [serializeUnits k, serializeUnits v]"
    by (simp add: split_at_separator split_no_separator serializeUnits_no_separator)
  then show ?thesis
    using assms by (simp add: spec_parsePairUtf16_def formDecodeUtf16_serializeUnits)
qed

lemma pairUtf16_no_ampersand:
  "CHR ''&'' \<notin> set (serializeUnits k @ CHR ''='' # serializeUnits v)"
  by (simp add: serializeUnits_no_separator)

lemma parseQueryUtf16_serialized:
  assumes "params \<noteq> []"
    and "list_all wellFormedUtf16 (map fst params)"
    and "list_all wellFormedUtf16 (map snd params)"
  shows "spec_parseQueryUtf16 (searchParamsToStringUtf16 params) = Some params"
  using assms
proof (induction params)
  case Nil
  then show ?case by simp
next
  case (Cons kv rest)
  obtain k v where kv: "kv = (k, v)" by (cases kv)
  let ?piece = "serializeUnits k @ CHR ''='' # serializeUnits v"
  from Cons.prems kv have wf: "wellFormedUtf16 k" "wellFormedUtf16 v" by simp_all
  show ?case
  proof (cases rest)
    case Nil
    with kv show ?thesis
      using split_no_separator [OF pairUtf16_no_ampersand, of k v]
      by (simp add: spec_parseQueryUtf16_def searchParamsToStringUtf16_def
            parsePairUtf16_serialized [OF wf])
  next
    case (Cons kv' rest')
    then have "searchParamsToStringUtf16 (kv # rest)
                 = ?piece @ CHR ''&'' # searchParamsToStringUtf16 rest"
      using kv by (simp add: searchParamsToStringUtf16_def)
    then have "split (CHR ''&'') (searchParamsToStringUtf16 (kv # rest)) =
                 ?piece # split (CHR ''&'') (searchParamsToStringUtf16 rest)"
      using split_at_separator [OF pairUtf16_no_ampersand, of k v] by simp
    moreover from Cons Cons.IH Cons.prems
    have "spec_parseQueryUtf16 (searchParamsToStringUtf16 rest) = Some rest"
      by simp
    ultimately show ?thesis
      using kv by (simp add: spec_parseQueryUtf16_def parsePairUtf16_serialized [OF wf])
  qed
qed

lemma wellFormedUtf16_fromChars: "wellFormedUtf16 (fromChars s)"
proof (induction s)
  case Nil
  then show ?case by (simp add: fromChars_def)
next
  case (Cons c s)
  then show ?case
    by (cases s) (simp_all add: fromChars_def fromChar_not_surrogate)
qed

lemma parseUrlUtf16_built:
  assumes "wellFormedOptions opts"
  shows "spec_parseUrlUtf16 (buildSpringInitializrUrlUtf16 opts) = Some (searchParamsUtf16 opts)"
proof -
  have "searchParamsUtf16 opts \<noteq> []" by (simp add: searchParamsUtf16_def)
  moreover have "list_all wellFormedUtf16 (map fst (searchParamsUtf16 opts))"
    by (simp add: searchParamsUtf16_def wellFormedUtf16_fromChars)
  moreover have "list_all wellFormedUtf16 (map snd (searchParamsUtf16 opts))"
    using assms by (simp only: wellFormedOptions_def)
  ultimately have "spec_parseQueryUtf16 (searchParamsToStringUtf16 (searchParamsUtf16 opts))
                     = Some (searchParamsUtf16 opts)"
    by (rule parseQueryUtf16_serialized)
  then show ?thesis
    by (simp add: spec_parseUrlUtf16_def buildSpringInitializrUrlUtf16_def)
qed

text \<open>On Latin-1 text the builder over code units is the builder over characters.\<close>

lemma buildSpringInitializrUrlUtf16_latin1:
  "buildSpringInitializrUrlUtf16 (optionsToUtf16 opts) = buildSpringInitializrUrl opts"
proof -
  have d: "withDefaultUtf16 (map_option fromChars v) d = fromChars (withDefault v d)" for v d
    by (cases v) (simp_all add: withDefaultUtf16_def withDefault_def)
  show ?thesis
    by (simp add: buildSpringInitializrUrlUtf16_def buildSpringInitializrUrl_def
          searchParamsToStringUtf16_def searchParamsToString_def searchParamsUtf16_def
          searchParams_def optionsToUtf16_def d serializeUnits_fromChars)
qed

subsection \<open>The fetcher and the wrapper\<close>

lemma downloadSpringBootZip_requests:
  "requests (snd (downloadSpringBootZip get url outputPath w)) = requests w @ [url]"
  by (simp add: downloadSpringBootZip_def Let_def emit_def createFile_def unlinkSync_def
        split: response.splits transfer.splits sum.splits)

lemma downloadSpringBootZip_status:
  "fst (downloadSpringBootZip get url outputPath w) = Rejected (StatusError s)
     \<longleftrightarrow> (\<exists>body. get url = Response s body) \<and> s \<noteq> 200"
  by (auto simp: downloadSpringBootZip_def Let_def emit_def createFile_def unlinkSync_def
        split: response.splits transfer.splits sum.splits)

lemma downloadSpringBootZip_resolved:
  "fst (downloadSpringBootZip get url outputPath w) = Resolved p
     \<longleftrightarrow> p = outputPath \<and> get url = Response 200 Finish"
  by (auto simp: downloadSpringBootZip_def Let_def emit_def createFile_def unlinkSync_def
        split: response.splits transfer.splits sum.splits)

lemma downloadSpringBootZip_creates:
  "get url = Response 200 Finish \<Longrightarrow>
     paths (snd (downloadSpringBootZip get url outputPath w)) = insert outputPath (paths w)"
  by (simp add: downloadSpringBootZip_def Let_def emit_def createFile_def)

lemma downloadSpringBootZip_no_file_on_status:
  "get url = Response s body \<Longrightarrow> s \<noteq> 200 \<Longrightarrow>
     paths (snd (downloadSpringBootZip get url outputPath w)) = paths w"
  by (simp add: downloadSpringBootZip_def Let_def emit_def createFile_def)

lemma tryBlock_ignores_rmSync:
  "tryBlock mc (env\<lparr>rmSync := r\<rparr>) url tempDir w = tryBlock mc env url tempDir w"
proof -
  have "https_get (env\<lparr>rmSync := r\<rparr>) = https_get env"
    "mkdirSync (env\<lparr>rmSync := r\<rparr>) = mkdirSync env"
    "admZipInstalled (env\<lparr>rmSync := r\<rparr>) = admZipInstalled env"
    "extractAllTo (env\<lparr>rmSync := r\<rparr>) = extractAllTo env"
    by simp_all
  then show ?thesis unfolding tryBlock_def by (simp only:)
qed

lemma finallyBlock_result: "fst (finallyBlock env tempDir outcome) = fst outcome"
  by (simp add: finallyBlock_def split: promise.splits option.splits)

lemma finallyBlock_removes:
  assumes "fst outcome \<noteq> Pending" and "rmSync env = None" 
  shows "\<forall>p \<in> paths (snd (finallyBlock env tempDir outcome)). \<not> inside tempDir p"
  using assms by (cases "fst outcome") (simp_all add: finallyBlock_def)

lemma finallyBlock_warns:
  assumes "fst outcome \<noteq> Pending" and "rmSync env = Some err"
  shows "WarnCleanup tempDir err \<in> set (console (snd (finallyBlock env tempDir outcome)))"
  using assms by (cases "fst outcome") (simp_all add: finallyBlock_def emit_def)

lemma scaffold_in_staging:
  assumes "mkdtempSync env = Inr tempDir"
  shows "scaffold mc ctx env w =
     finallyBlock env tempDir
       (tryBlock mc env (buildSpringInitializrUrl (scaffoldOptions mc ctx)) tempDir
          (createFile tempDir (emit (LogParameters (loggedParameters (scaffoldOptions mc ctx))) w)))"
  using assms by (simp add: scaffold_def Let_def)

lemma scaffold_pending:
  "fst (scaffold mc ctx env w) = Pending \<longleftrightarrow>
     (\<exists>tempDir. mkdtempSync env = Inr tempDir \<and>
        fst (downloadSpringBootZip (https_get env)
               (buildSpringInitializrUrl (scaffoldOptions mc ctx))
               (path_join tempDir ''starter.zip'')
               (createFile tempDir
                  (emit (LogParameters (loggedParameters (scaffoldOptions mc ctx))) w))) = Pending)"
proof (cases "mkdtempSync env")
  case (Inl err)
  then show ?thesis by (simp add: scaffold_def Let_def)
next
  case (Inr tempDir)
  then show ?thesis
    by (auto simp: scaffold_in_staging finallyBlock_result tryBlock_def Let_def
          split: prod.splits promise.splits option.splits sum.splits)
qed

lemma tryBlock_download_rejected:
  assumes "fst (downloadSpringBootZip (https_get env) url (path_join tempDir ''starter.zip'') w)
             = Rejected e"
  shows "fst (tryBlock mc env url tempDir w) = Rejected e"
proof (cases "downloadSpringBootZip (https_get env) url (path_join tempDir ''starter.zip'') w")
  case (Pair r w1)
  with assms have "r = Rejected e" by simp
  with Pair show ?thesis by (simp add: tryBlock_def Let_def)
qed

lemma tryBlock_download_pending:
  assumes "fst (downloadSpringBootZip (https_get env) url (path_join tempDir ''starter.zip'') w)
             = Pending"
  shows "tryBlock mc env url tempDir w =
           (Pending, snd (downloadSpringBootZip (https_get env) url
                            (path_join tempDir ''starter.zip'') w))"
proof (cases "downloadSpringBootZip (https_get env) url (path_join tempDir ''starter.zip'') w")
  case (Pair r w1)
  with assms have "r = Pending" by simp
  with Pair show ?thesis by (simp add: tryBlock_def Let_def)
qed

text \<open>
  A download promise that never settles keeps \<open>scaffold\<close> from settling, and the
  staging directory stays on disk.
\<close>

lemma downloadSpringBootZip_keeps_paths:
  assumes "p \<in> paths w" and "p \<noteq> outputPath"
  shows "p \<in> paths (snd (downloadSpringBootZip get url outputPath w))"
  using assms
  by (auto simp: downloadSpringBootZip_def Let_def emit_def createFile_def unlinkSync_def
        split: response.splits transfer.splits)

lemma scaffold_pending_keeps_directory:
  assumes tmp: "mkdtempSync env = Inr tempDir"
    and pending: "fst (scaffold mc ctx env w) = Pending"
  shows "tempDir \<in> paths (snd (scaffold mc ctx env w))"
proof -
  let ?w0 = "createFile tempDir
               (emit (LogParameters (loggedParameters (scaffoldOptions mc ctx))) w)"
  let ?url = "buildSpringInitializrUrl (scaffoldOptions mc ctx)"
  let ?dl = "downloadSpringBootZip (https_get env) ?url (path_join tempDir ''starter.zip'') ?w0"
  from pending tmp have dl: "fst ?dl = Pending" by (simp add: scaffold_pending)
  then have body: "tryBlock mc env ?url tempDir ?w0 = (Pending, snd ?dl)"
    by (rule tryBlock_download_pending)
  have "tempDir \<in> paths ?w0" by (simp add: createFile_def)
  moreover have "tempDir \<noteq> path_join tempDir ''starter.zip''" by (simp add: path_join_def)
  ultimately have "tempDir \<in> paths (snd ?dl)" by (rule downloadSpringBootZip_keeps_paths)
  with body show ?thesis
    by (simp add: scaffold_in_staging [OF tmp] finallyBlock_def)
qed

section \<open>Classification (C3, C10)\<close>

text \<open>
  Claim C3, as amended. For every file name and content that is read, the entry stored
  by the walk is binary exactly when the name ends with a full stop and one of the twelve
  listed extensions (letters compared without case), and text otherwise. An entry that
  is marked executable has a name that is \<open>gradlew\<close> or \<open>gradlew.bat\<close> or ends in
  \<open>.sh\<close>, each compared without case; and every such name that holds no line
  terminator is marked executable. A file named \<open>app.jar\<close> is binary, one named
  \<open>gradlew\<close> is executable, and one named \<open>README.md\<close> is text and not executable.
\<close>

theorem classification_of_extracted_file:
  "(\<exists>e. fst (readEntry name (Inr c) p st) p = Some e \<and> content e = c
        \<and> (type e = Binary \<longleftrightarrow> spec_binary_name name)
        \<and> (type e = Text \<longleftrightarrow> \<not> spec_binary_name name)
        \<and> (executable e \<longrightarrow> amended_executable_name name)
        \<and> (\<not> list_ex lineTerminator name \<and> amended_executable_name name \<longrightarrow> executable e))
   \<and> isBinary ''app.jar'' \<and> shouldBeExecutable ''gradlew''
   \<and> \<not> isBinary ''README.md'' \<and> \<not> shouldBeExecutable ''README.md''"
proof -
  have "fst (readEntry name (Inr c) p st) p = Some (storedEntry name c)"
    by (simp add: readEntry_Inr)
  moreover have "content (storedEntry name c) = c"
    "type (storedEntry name c) = Binary \<longleftrightarrow> spec_binary_name name"
    "type (storedEntry name c) = Text \<longleftrightarrow> \<not> spec_binary_name name"
    by (simp_all add: storedEntry_def isBinary_spec)
  moreover have "executable (storedEntry name c) \<longrightarrow> amended_executable_name name"
    by (simp add: storedEntry_def executable_matches_allowlist)
  moreover have "\<not> list_ex lineTerminator name \<and> amended_executable_name name \<longrightarrow>
      executable (storedEntry name c)"
    by (simp add: storedEntry_def allowlist_is_executable)
  ultimately have "\<exists>e. fst (readEntry name (Inr c) p st) p = Some e \<and> content e = c
        \<and> (type e = Binary \<longleftrightarrow> spec_binary_name name)
        \<and> (type e = Text \<longleftrightarrow> \<not> spec_binary_name name)
        \<and> (executable e \<longrightarrow> amended_executable_name name)
        \<and> (\<not> list_ex lineTerminator name \<and> amended_executable_name name \<longrightarrow> executable e)"
    by blast
  moreover have "isBinary ''app.jar''"
    by (simp add: isBinary_def binaryExtensions_def endsWith_def toUpperCase_def)
  moreover have "shouldBeExecutable ''gradlew''"
    by (simp add: shouldBeExecutable_def)
  moreover have "\<not> isBinary ''README.md''"
    by (simp add: isBinary_def binaryExtensions_def endsWith_def toUpperCase_def)
  moreover have "\<not> shouldBeExecutable ''README.md''"
    by (simp add: shouldBeExecutable_def endsWith_def toUpperCase_def)
  ultimately show ?thesis by blast
qed

text \<open>
  The theorem at the shell script \<open>run.SH\<close>: the stored entry is text and executable.
\<close>

theorem classification_of_extracted_file_witness:
  "\<exists>e. fst (readEntry ''run.SH'' (Inr ''echo'') ''bin/run.SH'' (Map.empty, [])) ''bin/run.SH''
          = Some e
       \<and> content e = ''echo'' \<and> type e = Text \<and> executable e"
proof -
  have notBinary: "\<not> spec_binary_name ''run.SH''"
    unfolding isBinary_spec [symmetric]
    by (simp add: isBinary_def binaryExtensions_def endsWith_def toUpperCase_def)
  have plain: "\<not> list_ex lineTerminator ''run.SH''"
    by (simp add: lineTerminator_def)
  have "''run.SH'' = ''run'' @ ''.SH'' \<and> sameIgnoringCase ''.SH'' ''.sh''"
    by (simp add: sameIgnoringCase_def toUpperCase_def)
  then have listed: "amended_executable_name ''run.SH''"
    unfolding amended_executable_name_def by blast
  from classification_of_extracted_file
    [of "''run.SH''" "''echo''" "''bin/run.SH''" "(Map.empty, [])"]
  obtain e where
    "fst (readEntry ''run.SH'' (Inr ''echo'') ''bin/run.SH'' (Map.empty, [])) ''bin/run.SH''
       = Some e"
    "content e = ''echo''"
    "type e = Text \<longleftrightarrow> \<not> spec_binary_name ''run.SH''"
    "\<not> list_ex lineTerminator ''run.SH'' \<and> amended_executable_name ''run.SH'' \<longrightarrow> executable e"
    by blast
  with notBinary plain listed show ?thesis by blast
qed

text \<open>
  Claim C3 as stated fails: the name \<open>GRADLEW\<close> is neither of the two launcher names
  and does not end in the shell-script extension, and the walk stores its entry as
  executable, because the pattern compares without case.
\<close>

theorem executable_upper_case_counterexample:
  "\<not> spec_executable_name ''GRADLEW''
   \<and> fst (readEntry ''GRADLEW'' (Inr ''exec'') ''GRADLEW'' (Map.empty, [])) ''GRADLEW''
       = Some \<lparr>type = Text, content = ''exec'', executable = True\<rparr>"
proof -
  have "\<not> endsWith (map toUpperCase ''GRADLEW'') (map toUpperCase ''.sh'')"
    by (simp add: endsWith_def toUpperCase_def)
  then have "\<not> (\<exists>stem e. ''GRADLEW'' = stem @ e \<and> sameIgnoringCase e ''.sh'')"
    unfolding endsWith_map_split sameIgnoringCase_def .
  then have "\<not> spec_executable_name ''GRADLEW''"
    unfolding spec_executable_name_def by simp
  moreover have "shouldBeExecutable ''GRADLEW''"
    by (simp add: shouldBeExecutable_def toUpperCase_def)
  moreover have "\<not> isBinary ''GRADLEW''"
    by (simp add: isBinary_def binaryExtensions_def endsWith_def toUpperCase_def)
  ultimately show ?thesis by (simp add: readEntry_def assignProperty_def)
qed

text \<open>
  The amended claim leaves one case out. The wildcard of the executable pattern matches
  no line terminator, so that a name with a line feed before \<open>.sh\<close> is stored as not
  executable, where the comment in the source says that shell scripts (\<open>*.sh\<close>) are
  executable.
\<close>

lemma shell_script_with_line_feed:
  "amended_executable_name ''a\<newline>.sh'' \<and> \<not> shouldBeExecutable ''a\<newline>.sh''"
proof -
  have "''a\<newline>.sh'' = ''a\<newline>'' @ ''.sh'' \<and> sameIgnoringCase ''.sh'' ''.sh''"
    by (simp add: sameIgnoringCase_def)
  then have "amended_executable_name ''a\<newline>.sh''"
    unfolding amended_executable_name_def by blast
  moreover have "\<not> shouldBeExecutable ''a\<newline>.sh''"
    by (simp add: shouldBeExecutable_def endsWith_def toUpperCase_def lineTerminator_def)
  ultimately show ?thesis by simp
qed

text \<open>
  Claim C10. Every entry of the file model returned by \<open>extractZipToMemory\<close> that is
  marked executable has type text: a name that matches the executable pattern never
  matches the binary pattern.
\<close>

theorem executable_entries_are_text:
  assumes "extractZipToMemory installed unzip zipPath extractPath w = (Inr files, w')"
    and "files p = Some e" and "executable e"
  shows "type e = Text"
proof -
  from extractZipToMemory_Inr [OF assms(1)] obtain tree con c' where
    walk: "readDirectoryRecursive tree [] (Map.empty, con) = (None, files, c')" by blast
  have "fst (snd (readDirectoryRecursive tree [] (Map.empty, con))) p = Some e"
    using walk assms(2) by simp
  from walk_entries(1) [OF this] obtain n c where e: "e = storedEntry n c" by auto
  with assms(3) have "shouldBeExecutable n" by (simp add: storedEntry_def)
  then have "\<not> isBinary n" by (rule executable_not_binary)
  with e show ?thesis by (simp add: storedEntry_def)
qed

text \<open>The theorem at an archive that holds the launcher \<open>gradlew\<close> and a jar.\<close>

theorem executable_entries_are_text_witness:
  "\<exists>files w' e.
     extractZipToMemory True
       (Inr (Listing [FileNode ''gradlew'' (Inr ''#!/bin/sh''), FileNode ''app.jar'' (Inr ''UEs='')]))
       ''/tmp/g/starter.zip'' ''/tmp/g/extracted''
       \<lparr>paths = {''/tmp/g/starter.zip''}, requests = [], console = []\<rparr> = (Inr files, w')
     \<and> files ''gradlew'' = Some e \<and> executable e \<and> type e = Text"
proof -
  let ?run = "extractZipToMemory True
       (Inr (Listing [FileNode ''gradlew'' (Inr ''#!/bin/sh''), FileNode ''app.jar'' (Inr ''UEs='')]))
       ''/tmp/g/starter.zip'' ''/tmp/g/extracted''
       \<lparr>paths = {''/tmp/g/starter.zip''}, requests = [], console = []\<rparr>"
  let ?e = "\<lparr>type = Text, content = ''#!/bin/sh'', executable = True\<rparr>"
  let ?files = "[''gradlew'' \<mapsto> ?e,
                 ''app.jar'' \<mapsto> \<lparr>type = Binary, content = ''UEs='', executable = False\<rparr>]"
  have bin: "\<not> isBinary ''gradlew''" "isBinary ''app.jar''"
    by (simp_all add: isBinary_def binaryExtensions_def endsWith_def toUpperCase_def)
  have exe: "shouldBeExecutable ''gradlew''" "\<not> shouldBeExecutable ''app.jar''"
    by (simp_all add: shouldBeExecutable_def endsWith_def toUpperCase_def)
  have "fst ?run = Inr ?files"
    by (simp add: extractZipToMemory_def emit_def Let_def readEntry_def assignProperty_def
          relativePathOf_def bin exe)
  then have run: "?run = (Inr ?files, snd ?run)" by (metis prod.collapse)
  have look: "?files ''gradlew'' = Some ?e" by simp
  have "executable ?e" by simp
  from executable_entries_are_text [OF run look this] run look show ?thesis by auto
qed

section \<open>Materialization (C8)\<close>

text \<open>
  What the walk does for a tree as a file system holds it (entry names are not empty,
  hold no separator and differ within one directory) in which every directory can be
  listed. \<open>extractZipToMemory\<close> returns a file model whatever files fail to be read.
  Every file that is read is read back from the model under its path relative to the
  unpack root, with its content and classification, and the path is an own key of the
  model unless it is \<open>__proto__\<close>. Every file whose read fails is absent from the
  model and has its warning on the console.
\<close>

lemma extractZipToMemory_stores_files:
  assumes inst: "zipPath \<in> paths w"
    and wf: "wellFormedDir tree" and ls: "listableDir tree"
  shows "\<exists>files w'. extractZipToMemory True (Inr tree) zipPath extractPath w = (Inr files, w') \<and>
           (\<forall>(p, name, rd) \<in> set (spec_filesOfDir [] tree).
              case rd of
                Inr c \<Rightarrow>
                  files p = Some \<lparr>type = (if isBinary name then Binary else Text), content = c,
                                  executable = shouldBeExecutable name\<rparr>
                  \<and> (p \<noteq> ''__proto__'' \<longrightarrow> p \<in> ownKeys files)
              | Inl err \<Rightarrow>
                  files p = None \<and> p \<notin> ownKeys files
                  \<and> WarnCouldNotRead p err \<in> set (console w'))"
proof -
  let ?st0 = "(Map.empty, console w @ [LogExtracting]) :: walk_state"
  let ?walk = "readDirectoryRecursive tree [] ?st0"
  let ?run = "extractZipToMemory True (Inr tree) zipPath extractPath w"
  have ret: "fst ?walk = None" using ls by (rule walk_returns(1))
  then have walk: "?walk = (None, snd ?walk)" by (metis prod.collapse)
  have run: "fst ?run = Inr (fst (snd ?walk))"
    using extractZipToMemory_walk(1) [OF inst, of tree extractPath] walk
    by (metis (mono_tags, lifting) case_prod_conv option.simps(4))
  have con: "set (snd (snd ?walk)) \<subseteq> set (console (snd ?run))"
    using inst by (rule extractZipToMemory_walk(2))
  have "case rd of
          Inr c \<Rightarrow> fst (snd ?walk) p = Some (storedEntry name c)
                    \<and> (p \<noteq> ''__proto__'' \<longrightarrow> p \<in> ownKeys (fst (snd ?walk)))
        | Inl err \<Rightarrow> fst (snd ?walk) p = None \<and> p \<notin> ownKeys (fst (snd ?walk))
                    \<and> WarnCouldNotRead p err \<in> set (console (snd ?run))"
    if leaf: "(p, name, rd) \<in> set (spec_filesOfDir [] tree)" for p name rd
  proof (cases rd)
    case (Inr c)
    with walk_stores(1) [OF wf ret] leaf
    have "fst (snd ?walk) p = Some (storedEntry name c)" by simp
    with Inr show ?thesis by (auto simp: ownKeys_def)
  next
    case (Inl err)
    have none: "fst (snd ?walk) p = None"
    proof (rule ccontr)
      assume "fst (snd ?walk) p \<noteq> None"
      then obtain e where "fst (snd ?walk) p = Some e" by auto
      from walk_entries(1) [OF this] obtain n c where
        "(p, n, Inr c) \<in> set (spec_filesOfDir [] tree)" by auto
      with leaf files_distinct(1) [OF wf, of "[]"] have "(name, rd) = (n, Inr c)"
        by (meson eq_key_imp_eq_value)
      with Inl show False by simp
    qed
    moreover have "WarnCouldNotRead p err \<in> set (snd (snd ?walk))"
      using walk_warns(1) [OF _ ret] leaf Inl by blast
    ultimately show ?thesis using con Inl by (auto simp: ownKeys_def)
  qed
  then have "\<forall>(p, name, rd) \<in> set (spec_filesOfDir [] tree).
              case rd of
                Inr c \<Rightarrow> fst (snd ?walk) p = Some (storedEntry name c)
                    \<and> (p \<noteq> ''__proto__'' \<longrightarrow> p \<in> ownKeys (fst (snd ?walk)))
              | Inl err \<Rightarrow> fst (snd ?walk) p = None \<and> p \<notin> ownKeys (fst (snd ?walk))
                    \<and> WarnCouldNotRead p err \<in> set (console (snd ?run))"
    by blast
  moreover have "?run = (Inr (fst (snd ?walk)), snd ?run)" using run by (metis prod.collapse)
  ultimately show ?thesis unfolding storedEntry_def by blast
qed

text \<open>
  Claim C8 fails on the code. A read failure is not fatal, the file is left out with a
  warning and the walk goes on, as the claim says. But a file named \<open>__proto__\<close> in the
  root of the archive that is read is not in the returned file model: the assignment
  \<open>files['__proto__'] = {...}\<close> replaces the prototype of the object and creates no
  key. Here the archive holds \<open>__proto__\<close> and \<open>README.md\<close>, both are read, and the
  model has the one key \<open>README.md\<close>; the program reports one extracted file.
\<close>

theorem extractZipToMemory_loses_proto_file:
  "\<exists>files w'.
     extractZipToMemory True
       (Inr (Listing [FileNode ''__proto__'' (Inr ''data''), FileNode ''README.md'' (Inr ''hello'')]))
       ''/tmp/g/starter.zip'' ''/tmp/g/extracted''
       \<lparr>paths = {''/tmp/g/starter.zip''}, requests = [], console = []\<rparr> = (Inr files, w')
     \<and> ownKeys files = {''README.md''}
     \<and> ''__proto__'' \<notin> ownKeys files
     \<and> console w' = [LogExtracting, LogExtracted 1]"
proof -
  let ?run = "extractZipToMemory True
       (Inr (Listing [FileNode ''__proto__'' (Inr ''data''), FileNode ''README.md'' (Inr ''hello'')]))
       ''/tmp/g/starter.zip'' ''/tmp/g/extracted''
       \<lparr>paths = {''/tmp/g/starter.zip''}, requests = [], console = []\<rparr>"
  let ?files = "[''__proto__'' \<mapsto> \<lparr>type = Text, content = ''data'', executable = False\<rparr>,
                 ''README.md'' \<mapsto> \<lparr>type = Text, content = ''hello'', executable = False\<rparr>]"
  have cls: "\<not> isBinary ''__proto__''" "\<not> isBinary ''README.md''"
    "\<not> shouldBeExecutable ''__proto__''" "\<not> shouldBeExecutable ''README.md''"
    by (simp_all add: isBinary_def shouldBeExecutable_def binaryExtensions_def endsWith_def
          toUpperCase_def)
  have keys: "ownKeys ?files = {''README.md''}"
    by (auto simp: ownKeys_def)
  have walk: "readDirectoryRecursive
      (Listing [FileNode ''__proto__'' (Inr ''data''), FileNode ''README.md'' (Inr ''hello'')]) []
      (Map.empty, [LogExtracting]) = (None, ?files, [LogExtracting])"
    by (simp add: readEntry_def assignProperty_def relativePathOf_def cls)
  have "?run = (Inr ?files,
      \<lparr>paths = {''/tmp/g/starter.zip''} \<union> {''/tmp/g/extracted/__proto__'',
                 ''/tmp/g/extracted/README.md''},
       requests = [], console = [LogExtracting, LogExtracted (card (ownKeys ?files))]\<rparr>)"
    by (simp add: extractZipToMemory_def emit_def Let_def walk path_join_def
          del: readDirectoryRecursive.simps readDirectoryItems.simps)
  with keys show ?thesis by simp
qed

section \<open>The removal filter (C7)\<close>

text \<open>
  Claim C7 fails on the code. Applying the filter twice gives what one application
  gives, and a path with an entry is deleted (lemmas \<open>removeFiles_twice\<close> and
  \<open>removeFiles_present\<close>). But the test \<open>if (files[fileToRemove])\<close> is also true for
  a name that the object inherits: for the path \<open>constructor\<close>, which is absent from
  the empty file model, the filter prints no warning and logs the path as removed.
\<close>

theorem removeFiles_inherited_name:
  "removeFiles Map.empty (Some [''constructor'']) []
     = (Map.empty, [LogRemoving, LogRemoved ''constructor''])
   \<and> ''constructor'' \<notin> ownKeys Map.empty
   \<and> WarnNotFound ''constructor''
       \<notin> set (snd (removeFiles Map.empty (Some [''constructor'']) []))"
  by (simp add: removeFiles_def truthyProperty_def objectPrototypeNames_def deleteProperty_def
        ownKeys_def)

section \<open>The request builder (C4, C5, C9)\<close>

text \<open>
  Claim C4. When neither \<open>module.fieldValues\<close> nor the base template configuration
  supplies a field, \<open>scaffold\<close> resolves it to the default before it builds the URL,
  and the URL built carries the default: \<open>type\<close> is \<open>gradle-project\<close>,
  \<open>javaVersion\<close> is \<open>21\<close>, \<open>platformVersion\<close> is \<open>3.5.3\<close> (the latest stable
  version that the documentation of the module lists), \<open>packaging\<close> is \<open>jar\<close> and
  \<open>dependencies\<close> is \<open>web,lombok\<close>. The options that \<open>scaffold\<close> passes have
  every field supplied, so that the fallbacks of the builder itself are never used.
\<close>

theorem scaffold_resolves_defaults:
  "\<exists>params.
     spec_parseUrl (buildSpringInitializrUrl (scaffoldOptions mc ctx)) = Some params
     \<and> supplied (scaffoldOptions mc ctx)
     \<and> (fieldValues_buildTool ctx = None \<and> config_build mc = None \<longrightarrow>
          projectType (scaffoldOptions mc ctx) = Some ''gradle-project''
          \<and> map_of params ''type'' = Some ''gradle-project'')
     \<and> (fieldValues_javaVersion ctx = None \<and> config_javaVersion mc = None \<longrightarrow>
          javaVersion (scaffoldOptions mc ctx) = Some ''21''
          \<and> map_of params ''javaVersion'' = Some ''21'')
     \<and> (fieldValues_springBootVersion ctx = None \<and> config_platformVersion mc = None \<longrightarrow>
          platformVersion (scaffoldOptions mc ctx) = Some ''3.5.3''
          \<and> map_of params ''platformVersion'' = Some ''3.5.3'')
     \<and> (fieldValues_packaging ctx = None \<and> config_packaging mc = None \<longrightarrow>
          packaging (scaffoldOptions mc ctx) = Some ''jar''
          \<and> map_of params ''packaging'' = Some ''jar'')
     \<and> (fieldValues_dependencies ctx = None \<and> config_dependencies mc = None \<longrightarrow>
          dependencies (scaffoldOptions mc ctx) = Some ''web,lombok''
          \<and> map_of params ''dependencies'' = Some ''web,lombok'')"
proof -
  let ?params = "searchParams (scaffoldOptions mc ctx)"
  have "spec_parseUrl (buildSpringInitializrUrl (scaffoldOptions mc ctx)) = Some ?params"
    by (rule parseUrl_built)
  moreover have "supplied (scaffoldOptions mc ctx)"
    by (simp add: supplied_def scaffoldOptions_def Let_def)
  moreover have "fieldValues_buildTool ctx = None \<and> config_build mc = None \<longrightarrow>
          projectType (scaffoldOptions mc ctx) = Some ''gradle-project''
          \<and> map_of ?params ''type'' = Some ''gradle-project''"
    by (simp add: scaffoldOptions_def searchParams_def firstTruthy_def truthy_def
          withDefault_def Let_def)
  moreover have "fieldValues_javaVersion ctx = None \<and> config_javaVersion mc = None \<longrightarrow>
          javaVersion (scaffoldOptions mc ctx) = Some ''21''
          \<and> map_of ?params ''javaVersion'' = Some ''21''"
    by (simp add: scaffoldOptions_def searchParams_def firstTruthy_def truthy_def
          withDefault_def Let_def)
  moreover have "fieldValues_springBootVersion ctx = None \<and> config_platformVersion mc = None \<longrightarrow>
          platformVersion (scaffoldOptions mc ctx) = Some ''3.5.3''
          \<and> map_of ?params ''platformVersion'' = Some ''3.5.3''"
    by (simp add: scaffoldOptions_def searchParams_def firstTruthy_def truthy_def
          withDefault_def Let_def)
  moreover have "fieldValues_packaging ctx = None \<and> config_packaging mc = None \<longrightarrow>
          packaging (scaffoldOptions mc ctx) = Some ''jar''
          \<and> map_of ?params ''packaging'' = Some ''jar''"
    by (simp add: scaffoldOptions_def searchParams_def firstTruthy_def truthy_def
          withDefault_def Let_def)
  moreover have "fieldValues_dependencies ctx = None \<and> config_dependencies mc = None \<longrightarrow>
          dependencies (scaffoldOptions mc ctx) = Some ''web,lombok''
          \<and> map_of ?params ''dependencies'' = Some ''web,lombok''"
    by (simp add: scaffoldOptions_def searchParams_def firstTruthy_def truthy_def
          withDefault_def Let_def)
  ultimately show ?thesis by blast
qed

text \<open>
  The theorem at a module \<open>shop\<close> of the domain \<open>example.com\<close> whose configuration
  supplies nothing.
\<close>

theorem scaffold_resolves_defaults_witness:
  "\<exists>params.
     spec_parseUrl
       (buildSpringInitializrUrl
          (scaffoldOptions
             \<lparr>config_build = None, config_javaVersion = None, config_platformVersion = None,
              config_packaging = None, config_dependencies = None, files_remove = None\<rparr>
             \<lparr>context_project_domain = ''example.com'', context_module_name = ''shop'',
              fieldValues_buildTool = None, fieldValues_javaVersion = None,
              fieldValues_springBootVersion = None, fieldValues_packaging = None,
              fieldValues_dependencies = None\<rparr>)) = Some params
     \<and> map_of params ''type'' = Some ''gradle-project''
     \<and> map_of params ''javaVersion'' = Some ''21''
     \<and> map_of params ''platformVersion'' = Some ''3.5.3''
     \<and> map_of params ''packaging'' = Some ''jar''
     \<and> map_of params ''dependencies'' = Some ''web,lombok''"
  using scaffold_resolves_defaults
    [of "\<lparr>config_build = None, config_javaVersion = None, config_platformVersion = None,
          config_packaging = None, config_dependencies = None, files_remove = None\<rparr>"
        "\<lparr>context_project_domain = ''example.com'', context_module_name = ''shop'',
          fieldValues_buildTool = None, fieldValues_javaVersion = None,
          fieldValues_springBootVersion = None, fieldValues_packaging = None,
          fieldValues_dependencies = None\<rparr>"]
  by simp blast



text \<open>
  Claim C9. The request builder is a function of its options: for options with every
  field supplied and every string well formed (no surrogate outside a pair), two URLs are
  the same exactly when the options are the same, so the same options give the same URL
  and a change of any field changes the URL. The names of the parameters come in one
  fixed order.
\<close>

theorem buildSpringInitializrUrl_injective:
  assumes "suppliedUtf16 p" and "suppliedUtf16 q"
    and "wellFormedOptions p" and "wellFormedOptions q"
  shows "(buildSpringInitializrUrlUtf16 p = buildSpringInitializrUrlUtf16 q \<longleftrightarrow> p = q)
    \<and> map_option (map fst) (spec_parseUrlUtf16 (buildSpringInitializrUrlUtf16 p)) =
        Some (map fromChars
          [''type'', ''language'', ''platformVersion'', ''packaging'', ''javaVersion'',
           ''groupId'', ''artifactId'', ''name'', ''description'', ''packageName'',
           ''dependencies''])"
proof
  show "buildSpringInitializrUrlUtf16 p = buildSpringInitializrUrlUtf16 q \<longleftrightarrow> p = q"
  proof
    assume "buildSpringInitializrUrlUtf16 p = buildSpringInitializrUrlUtf16 q"
    then have "spec_parseUrlUtf16 (buildSpringInitializrUrlUtf16 p)
                 = spec_parseUrlUtf16 (buildSpringInitializrUrlUtf16 q)"
      by simp
    with assms(3,4) have "searchParamsUtf16 p = searchParamsUtf16 q"
      by (simp add: parseUrlUtf16_built)
    with assms(1,2) show "p = q"
      by (cases p, cases q) (auto simp: searchParamsUtf16_def suppliedUtf16_def withDefaultUtf16_def)
  next
    assume "p = q"
    then show "buildSpringInitializrUrlUtf16 p = buildSpringInitializrUrlUtf16 q" by simp
  qed
next
  show "map_option (map fst) (spec_parseUrlUtf16 (buildSpringInitializrUrlUtf16 p)) =
        Some (map fromChars
          [''type'', ''language'', ''platformVersion'', ''packaging'', ''javaVersion'',
           ''groupId'', ''artifactId'', ''name'', ''description'', ''packageName'',
           ''dependencies''])"
    using assms(3) by (simp add: parseUrlUtf16_built searchParamsUtf16_def)
qed

text \<open>
  The theorem at two sets of options that differ in the Java version alone; the
  description ends in a surrogate pair (the code point 1F600).
\<close>

theorem buildSpringInitializrUrl_injective_witness:
  "buildSpringInitializrUrlUtf16
     \<lparr>groupIdUtf16 = fromChars ''com.example'', artifactIdUtf16 = fromChars ''shop-api'',
      packageNameUtf16 = fromChars ''com.example.shop'',
      projectTypeUtf16 = Some (fromChars ''gradle-project''),
      javaVersionUtf16 = Some (fromChars ''21''),
      platformVersionUtf16 = Some (fromChars ''3.5.3''),
      packagingUtf16 = Some (fromChars ''jar''),
      dependenciesUtf16 = Some (fromChars ''web,lombok''),
      descriptionUtf16 = Some (fromChars ''shop'' @ [0xD83D, 0xDE00])\<rparr>
   \<noteq> buildSpringInitializrUrlUtf16
     \<lparr>groupIdUtf16 = fromChars ''com.example'', artifactIdUtf16 = fromChars ''shop-api'',
      packageNameUtf16 = fromChars ''com.example.shop'',
      projectTypeUtf16 = Some (fromChars ''gradle-project''),
      javaVersionUtf16 = Some (fromChars ''17''),
      platformVersionUtf16 = Some (fromChars ''3.5.3''),
      packagingUtf16 = Some (fromChars ''jar''),
      dependenciesUtf16 = Some (fromChars ''web,lombok''),
      descriptionUtf16 = Some (fromChars ''shop'' @ [0xD83D, 0xDE00])\<rparr>"
proof -
  let ?p = "\<lparr>groupIdUtf16 = fromChars ''com.example'', artifactIdUtf16 = fromChars ''shop-api'',
      packageNameUtf16 = fromChars ''com.example.shop'',
      projectTypeUtf16 = Some (fromChars ''gradle-project''),
      javaVersionUtf16 = Some (fromChars ''21''),
      platformVersionUtf16 = Some (fromChars ''3.5.3''),
      packagingUtf16 = Some (fromChars ''jar''),
      dependenciesUtf16 = Some (fromChars ''web,lombok''),
      descriptionUtf16 = Some (fromChars ''shop'' @ [0xD83D, 0xDE00])\<rparr>"
  let ?q = "\<lparr>groupIdUtf16 = fromChars ''com.example'', artifactIdUtf16 = fromChars ''shop-api'',
      packageNameUtf16 = fromChars ''com.example.shop'',
      projectTypeUtf16 = Some (fromChars ''gradle-project''),
      javaVersionUtf16 = Some (fromChars ''17''),
      platformVersionUtf16 = Some (fromChars ''3.5.3''),
      packagingUtf16 = Some (fromChars ''jar''),
      dependenciesUtf16 = Some (fromChars ''web,lombok''),
      descriptionUtf16 = Some (fromChars ''shop'' @ [0xD83D, 0xDE00])\<rparr>"
  have p: "suppliedUtf16 ?p" and q: "suppliedUtf16 ?q" by (simp_all add: suppliedUtf16_def)
  have d: "wellFormedUtf16 (fromChars ''shop'' @ [0xD83D, 0xDE00])"
    by (simp add: fromChars_def highSurrogate_def lowSurrogate_def)
  have wp: "wellFormedOptions ?p" and wq: "wellFormedOptions ?q"
    using d
    by (simp_all add: wellFormedOptions_def searchParamsUtf16_def withDefaultUtf16_def
          wellFormedUtf16_fromChars)
  have "fromChars ''21'' \<noteq> fromChars ''17''" by (simp add: fromChars_def)
  then have "?p \<noteq> ?q" by simp
  with buildSpringInitializrUrl_injective [OF p q wp wq] show ?thesis by blast
qed

text \<open>
  Against the claim as it stands, for every string that JavaScript allows: two sets of
  options that differ in the artifact identifier alone, each a lone high surrogate (a
  string cut in the middle of a surrogate pair), give the same URL, in which both
  identifiers are the replacement character FFFD.
\<close>

theorem lone_surrogate_counterexample:
  "suppliedUtf16
     \<lparr>groupIdUtf16 = fromChars ''com.example'', artifactIdUtf16 = [0xD83D],
      packageNameUtf16 = fromChars ''com.example.shop'',
      projectTypeUtf16 = Some (fromChars ''gradle-project''),
      javaVersionUtf16 = Some (fromChars ''21''),
      platformVersionUtf16 = Some (fromChars ''3.5.3''),
      packagingUtf16 = Some (fromChars ''jar''),
      dependenciesUtf16 = Some (fromChars ''web,lombok''),
      descriptionUtf16 = Some (fromChars ''shop'')\<rparr>
   \<and> suppliedUtf16
     \<lparr>groupIdUtf16 = fromChars ''com.example'', artifactIdUtf16 = [0xD83E],
      packageNameUtf16 = fromChars ''com.example.shop'',
      projectTypeUtf16 = Some (fromChars ''gradle-project''),
      javaVersionUtf16 = Some (fromChars ''21''),
      platformVersionUtf16 = Some (fromChars ''3.5.3''),
      packagingUtf16 = Some (fromChars ''jar''),
      dependenciesUtf16 = Some (fromChars ''web,lombok''),
      descriptionUtf16 = Some (fromChars ''shop'')\<rparr>
   \<and> buildSpringInitializrUrlUtf16
     \<lparr>groupIdUtf16 = fromChars ''com.example'', artifactIdUtf16 = [0xD83D],
      packageNameUtf16 = fromChars ''com.example.shop'',
      projectTypeUtf16 = Some (fromChars ''gradle-project''),
      javaVersionUtf16 = Some (fromChars ''21''),
      platformVersionUtf16 = Some (fromChars ''3.5.3''),
      packagingUtf16 = Some (fromChars ''jar''),
      dependenciesUtf16 = Some (fromChars ''web,lombok''),
      descriptionUtf16 = Some (fromChars ''shop'')\<rparr>
     = ''https://start.spring.io/starter.zip?type=gradle-project&language=java&platformVersion=3.5.3&packaging=jar&javaVersion=21&groupId=com.example&artifactId=%EF%BF%BD&name=%EF%BF%BD&description=shop&packageName=com.example.shop&dependencies=web%2Clombok''
   \<and> buildSpringInitializrUrlUtf16
     \<lparr>groupIdUtf16 = fromChars ''com.example'', artifactIdUtf16 = [0xD83E],
      packageNameUtf16 = fromChars ''com.example.shop'',
      projectTypeUtf16 = Some (fromChars ''gradle-project''),
      javaVersionUtf16 = Some (fromChars ''21''),
      platformVersionUtf16 = Some (fromChars ''3.5.3''),
      packagingUtf16 = Some (fromChars ''jar''),
      dependenciesUtf16 = Some (fromChars ''web,lombok''),
      descriptionUtf16 = Some (fromChars ''shop'')\<rparr>
     = ''https://start.spring.io/starter.zip?type=gradle-project&language=java&platformVersion=3.5.3&packaging=jar&javaVersion=21&groupId=com.example&artifactId=%EF%BF%BD&name=%EF%BF%BD&description=shop&packageName=com.example.shop&dependencies=web%2Clombok''
   \<and> artifactIdUtf16
     \<lparr>groupIdUtf16 = fromChars ''com.example'', artifactIdUtf16 = [0xD83D],
      packageNameUtf16 = fromChars ''com.example.shop'',
      projectTypeUtf16 = Some (fromChars ''gradle-project''),
      javaVersionUtf16 = Some (fromChars ''21''),
      platformVersionUtf16 = Some (fromChars ''3.5.3''),
      packagingUtf16 = Some (fromChars ''jar''),
      dependenciesUtf16 = Some (fromChars ''web,lombok''),
      descriptionUtf16 = Some (fromChars ''shop'')\<rparr>
     \<noteq> artifactIdUtf16
     \<lparr>groupIdUtf16 = fromChars ''com.example'', artifactIdUtf16 = [0xD83E],
      packageNameUtf16 = fromChars ''com.example.shop'',
      projectTypeUtf16 = Some (fromChars ''gradle-project''),
      javaVersionUtf16 = Some (fromChars ''21''),
      platformVersionUtf16 = Some (fromChars ''3.5.3''),
      packagingUtf16 = Some (fromChars ''jar''),
      dependenciesUtf16 = Some (fromChars ''web,lombok''),
      descriptionUtf16 = Some (fromChars ''shop'')\<rparr>"
proof -
  have units: "serializeUnits [0xD83D] = ''%EF%BF%BD''" "serializeUnits [0xD83E] = ''%EF%BF%BD''"
    by (simp_all add: serializeUnits_def highSurrogate_def lowSurrogate_def utf8Encode_def
          serializeByte_def percentByte_def hexDigit_def)
  have plain: "serializeString ''gradle-project'' = ''gradle-project''"
    "serializeString ''java'' = ''java''" "serializeString ''3.5.3'' = ''3.5.3''"
    "serializeString ''jar'' = ''jar''" "serializeString ''21'' = ''21''"
    "serializeString ''com.example'' = ''com.example''"
    "serializeString ''shop'' = ''shop''"
    "serializeString ''com.example.shop'' = ''com.example.shop''"
    "serializeString ''web,lombok'' = ''web%2Clombok''"
    "serializeString ''type'' = ''type''" "serializeString ''language'' = ''language''"
    "serializeString ''platformVersion'' = ''platformVersion''"
    "serializeString ''packaging'' = ''packaging''"
    "serializeString ''javaVersion'' = ''javaVersion''"
    "serializeString ''groupId'' = ''groupId''"
    "serializeString ''artifactId'' = ''artifactId''" "serializeString ''name'' = ''name''"
    "serializeString ''description'' = ''description''"
    "serializeString ''packageName'' = ''packageName''"
    "serializeString ''dependencies'' = ''dependencies''"
    by (simp_all add: serializeString_def serializeChar_def unreserved_def percentByte_def
          hexDigit_def)
  show ?thesis
    by (simp add: suppliedUtf16_def buildSpringInitializrUrlUtf16_def
          searchParamsToStringUtf16_def searchParamsUtf16_def withDefaultUtf16_def
          serializeUnits_fromChars units plain)
qed

section \<open>The archive fetcher (C1, C6)\<close>

text \<open>
  Claim C1, as amended. For every URL and destination path, \<open>downloadSpringBootZip\<close>
  issues one GET request and no other. It rejects with the error that carries the status
  code exactly when a response arrives whose status is not 200, and then it creates no
  file. It resolves exactly when the status is 200 and the body is written to its end;
  it resolves with the destination path, and the files on disk are those there were,
  with the destination path added.
\<close>

theorem downloadSpringBootZip_single_request:
  "requests (snd (downloadSpringBootZip get url outputPath w)) = requests w @ [url]
   \<and> (fst (downloadSpringBootZip get url outputPath w) = Rejected (StatusError s)
        \<longleftrightarrow> (\<exists>body. get url = Response s body) \<and> s \<noteq> 200)
   \<and> ((\<exists>body. get url = Response s body) \<and> s \<noteq> 200 \<longrightarrow>
        paths (snd (downloadSpringBootZip get url outputPath w)) = paths w)
   \<and> (fst (downloadSpringBootZip get url outputPath w) = Resolved p
        \<longleftrightarrow> p = outputPath \<and> get url = Response 200 Finish)
   \<and> (get url = Response 200 Finish \<longrightarrow>
        paths (snd (downloadSpringBootZip get url outputPath w)) = insert outputPath (paths w))"
  using downloadSpringBootZip_requests [of get url outputPath w]
    downloadSpringBootZip_status [of get url outputPath w s]
    downloadSpringBootZip_resolved [of get url outputPath w p]
    downloadSpringBootZip_creates [of get url outputPath w]
    downloadSpringBootZip_no_file_on_status [of get url s _ outputPath w]
  by blast

text \<open>The theorem at a server that answers 200 and a transfer that finishes.\<close>

theorem downloadSpringBootZip_single_request_witness:
  "requests (snd (downloadSpringBootZip (\<lambda>u. Response 200 Finish)
       ''https://start.spring.io/starter.zip?type=gradle-project'' ''/tmp/g/starter.zip''
       \<lparr>paths = {''/tmp/g''}, requests = [], console = []\<rparr>))
     = [''https://start.spring.io/starter.zip?type=gradle-project'']
   \<and> fst (downloadSpringBootZip (\<lambda>u. Response 200 Finish)
       ''https://start.spring.io/starter.zip?type=gradle-project'' ''/tmp/g/starter.zip''
       \<lparr>paths = {''/tmp/g''}, requests = [], console = []\<rparr>) = Resolved ''/tmp/g/starter.zip''
   \<and> paths (snd (downloadSpringBootZip (\<lambda>u. Response 200 Finish)
       ''https://start.spring.io/starter.zip?type=gradle-project'' ''/tmp/g/starter.zip''
       \<lparr>paths = {''/tmp/g''}, requests = [], console = []\<rparr>))
     = {''/tmp/g/starter.zip'', ''/tmp/g''}"
  using downloadSpringBootZip_single_request
    [of "\<lambda>u. Response 200 Finish" "''https://start.spring.io/starter.zip?type=gradle-project''"
        "''/tmp/g/starter.zip''" "\<lparr>paths = {''/tmp/g''}, requests = [], console = []\<rparr>"
        200 "''/tmp/g/starter.zip''"]
  by simp

text \<open>
  Claim C1 as stated fails: 204 is a status of the success class, and the fetcher rejects
  a response with it, since it compares the status with 200.
\<close>

theorem status_204_counterexample:
  "spec_successStatus 204
   \<and> fst (downloadSpringBootZip (\<lambda>u. Response 204 Finish)
       ''https://start.spring.io/starter.zip?type=gradle-project'' ''/tmp/g/starter.zip''
       \<lparr>paths = {''/tmp/g''}, requests = [], console = []\<rparr>) = Rejected (StatusError 204)"
  by (simp add: spec_successStatus_def downloadSpringBootZip_def Let_def)

text \<open>
  Claim C6 fails on the code. The one listener that removes the partial file is the
  \<open>error\<close> listener of the write stream. When the file was opened and a write fails,
  the file is removed and the promise rejects with that error, as the claim says. When
  the connection fails during the transfer, the partial file stays on disk: an error
  that reaches the listener of the request rejects the promise with no removal, and an
  error of the response stream has no listener at all, so that the promise never
  settles. When the file cannot be opened, \<open>unlinkSync\<close> finds no file and throws
  inside the listener, and the promise never settles either.
\<close>

theorem downloadSpringBootZip_partial_file_remains:
  "downloadSpringBootZip (\<lambda>u. Response 200 (WriteFailed ''ENOSPC''))
       ''https://start.spring.io/starter.zip?type=gradle-project'' ''/tmp/g/starter.zip''
       \<lparr>paths = {''/tmp/g''}, requests = [], console = []\<rparr>
     = (Rejected (LibraryError ''ENOSPC''),
        \<lparr>paths = {''/tmp/g''},
         requests = [''https://start.spring.io/starter.zip?type=gradle-project''],
         console = [LogDownloading ''https://start.spring.io/starter.zip?type=gradle-project'']\<rparr>)
   \<and> downloadSpringBootZip (\<lambda>u. Response 200 (SocketError ''ECONNRESET''))
       ''https://start.spring.io/starter.zip?type=gradle-project'' ''/tmp/g/starter.zip''
       \<lparr>paths = {''/tmp/g''}, requests = [], console = []\<rparr>
     = (Rejected (DownloadError ''ECONNRESET''),
        \<lparr>paths = {''/tmp/g/starter.zip'', ''/tmp/g''},
         requests = [''https://start.spring.io/starter.zip?type=gradle-project''],
         console = [LogDownloading ''https://start.spring.io/starter.zip?type=gradle-project'']\<rparr>)
   \<and> downloadSpringBootZip (\<lambda>u. Response 200 (ResponseAborted ''aborted''))
       ''https://start.spring.io/starter.zip?type=gradle-project'' ''/tmp/g/starter.zip''
       \<lparr>paths = {''/tmp/g''}, requests = [], console = []\<rparr>
     = (Pending,
        \<lparr>paths = {''/tmp/g/starter.zip'', ''/tmp/g''},
         requests = [''https://start.spring.io/starter.zip?type=gradle-project''],
         console = [LogDownloading ''https://start.spring.io/starter.zip?type=gradle-project'']\<rparr>)
   \<and> downloadSpringBootZip (\<lambda>u. Response 200 (OpenFailed ''EACCES''))
       ''https://start.spring.io/starter.zip?type=gradle-project'' ''/tmp/g/starter.zip''
       \<lparr>paths = {''/tmp/g''}, requests = [], console = []\<rparr>
     = (Pending,
        \<lparr>paths = {''/tmp/g''},
         requests = [''https://start.spring.io/starter.zip?type=gradle-project''],
         console = [LogDownloading ''https://start.spring.io/starter.zip?type=gradle-project'']\<rparr>)"
  by (simp add: downloadSpringBootZip_def Let_def emit_def createFile_def unlinkSync_def)

section \<open>The orchestration wrapper (C2)\<close>

text \<open>
  Claim C2. Once the staging directory is created, the promise of \<open>scaffold\<close> settles
  whenever the promise of the download settles, with a file model or with the error of
  any step, and then the \<open>finally\<close> block has run: when \<open>rmSync\<close> succeeds, no path
  of the staging directory is left on disk; when it throws, the warning is on the
  console. The result is the result of the \<open>try\<close> block (the error of a failed
  download is the error of \<open>scaffold\<close>), and it is the same whatever \<open>rmSync\<close> does.
  The only way not to settle is a download promise that never settles (lemmas
  \<open>scaffold_pending\<close> and \<open>scaffold_pending_keeps_directory\<close>).
\<close>

theorem scaffold_releases_staging_directory:
  assumes tmp: "mkdtempSync env = Inr tempDir"
    and download:
      "fst (downloadSpringBootZip (https_get env)
              (buildSpringInitializrUrl (scaffoldOptions mc ctx))
              (path_join tempDir ''starter.zip'')
              (createFile tempDir
                 (emit (LogParameters (loggedParameters (scaffoldOptions mc ctx))) w)))
         \<noteq> Pending"
  shows "fst (scaffold mc ctx env w) \<noteq> Pending
     \<and> (rmSync env = None \<longrightarrow>
            (\<forall>p \<in> paths (snd (scaffold mc ctx env w)). \<not> inside tempDir p))
     \<and> (rmSync env = Some err \<longrightarrow>
            WarnCleanup tempDir err \<in> set (console (snd (scaffold mc ctx env w))))
     \<and> fst (scaffold mc ctx env w) = fst (scaffold mc ctx (env\<lparr>rmSync := outcome\<rparr>) w)
     \<and> fst (scaffold mc ctx env w) =
         fst (tryBlock mc env (buildSpringInitializrUrl (scaffoldOptions mc ctx)) tempDir
                (createFile tempDir
                   (emit (LogParameters (loggedParameters (scaffoldOptions mc ctx))) w)))
     \<and> (fst (downloadSpringBootZip (https_get env)
              (buildSpringInitializrUrl (scaffoldOptions mc ctx))
              (path_join tempDir ''starter.zip'')
              (createFile tempDir
                 (emit (LogParameters (loggedParameters (scaffoldOptions mc ctx))) w)))
           = Rejected e
         \<longrightarrow> fst (scaffold mc ctx env w) = Rejected e)"
proof -
  let ?body = "tryBlock mc env (buildSpringInitializrUrl (scaffoldOptions mc ctx)) tempDir
                (createFile tempDir
                   (emit (LogParameters (loggedParameters (scaffoldOptions mc ctx))) w))"
  have run: "scaffold mc ctx env w = finallyBlock env tempDir ?body"
    using tmp by (rule scaffold_in_staging)
  have res: "fst (scaffold mc ctx env w) = fst ?body"
    by (simp add: run finallyBlock_result)
  have settled: "fst (scaffold mc ctx env w) \<noteq> Pending"
    using tmp download by (simp add: scaffold_pending)
  with res have np: "fst ?body \<noteq> Pending" by simp
  have tmp': "mkdtempSync (env\<lparr>rmSync := outcome\<rparr>) = Inr tempDir" using tmp by simp
  have same: "fst (scaffold mc ctx (env\<lparr>rmSync := outcome\<rparr>) w) = fst ?body"
    by (simp add: scaffold_in_staging [OF tmp'] finallyBlock_result tryBlock_ignores_rmSync)
  have rejected: "fst (scaffold mc ctx env w) = Rejected e"
    if "fst (downloadSpringBootZip (https_get env)
              (buildSpringInitializrUrl (scaffoldOptions mc ctx))
              (path_join tempDir ''starter.zip'')
              (createFile tempDir
                 (emit (LogParameters (loggedParameters (scaffoldOptions mc ctx))) w)))
           = Rejected e"
    using that res by (simp add: tryBlock_download_rejected)
  from settled res np same rejected show ?thesis
    by (simp add: run finallyBlock_removes finallyBlock_warns)
qed

text \<open>
  The theorem at the scenario of the specification: the download succeeds, the archive
  cannot be unpacked, and the cleanup succeeds. The promise rejects with the error of the
  archive library, and the staging directory and the downloaded archive are gone.
\<close>

theorem scaffold_releases_staging_directory_witness:
  "fst (scaffold
         \<lparr>config_build = None, config_javaVersion = None, config_platformVersion = None,
          config_packaging = None, config_dependencies = None, files_remove = None\<rparr>
         \<lparr>context_project_domain = ''example.com'', context_module_name = ''shop'',
          fieldValues_buildTool = None, fieldValues_javaVersion = None,
          fieldValues_springBootVersion = None, fieldValues_packaging = None,
          fieldValues_dependencies = None\<rparr>
         \<lparr>mkdtempSync = Inr ''/tmp/genesis3-spring-Ab12Cd'',
          https_get = (\<lambda>u. Response 200 Finish), mkdirSync = None, admZipInstalled = True,
          extractAllTo = Inl ''Invalid or unsupported zip format'', rmSync = None\<rparr>
         \<lparr>paths = {''/tmp''}, requests = [], console = []\<rparr>)
     = Rejected (LibraryError ''Invalid or unsupported zip format'')
   \<and> ''/tmp/genesis3-spring-Ab12Cd''
       \<notin> paths (snd (scaffold
         \<lparr>config_build = None, config_javaVersion = None, config_platformVersion = None,
          config_packaging = None, config_dependencies = None, files_remove = None\<rparr>
         \<lparr>context_project_domain = ''example.com'', context_module_name = ''shop'',
          fieldValues_buildTool = None, fieldValues_javaVersion = None,
          fieldValues_springBootVersion = None, fieldValues_packaging = None,
          fieldValues_dependencies = None\<rparr>
         \<lparr>mkdtempSync = Inr ''/tmp/genesis3-spring-Ab12Cd'',
          https_get = (\<lambda>u. Response 200 Finish), mkdirSync = None, admZipInstalled = True,
          extractAllTo = Inl ''Invalid or unsupported zip format'', rmSync = None\<rparr>
         \<lparr>paths = {''/tmp''}, requests = [], console = []\<rparr>))
   \<and> ''/tmp/genesis3-spring-Ab12Cd/starter.zip''
       \<notin> paths (snd (scaffold
         \<lparr>config_build = None, config_javaVersion = None, config_platformVersion = None,
          config_packaging = None, config_dependencies = None, files_remove = None\<rparr>
         \<lparr>context_project_domain = ''example.com'', context_module_name = ''shop'',
          fieldValues_buildTool = None, fieldValues_javaVersion = None,
          fieldValues_springBootVersion = None, fieldValues_packaging = None,
          fieldValues_dependencies = None\<rparr>
         \<lparr>mkdtempSync = Inr ''/tmp/genesis3-spring-Ab12Cd'',
          https_get = (\<lambda>u. Response 200 Finish), mkdirSync = None, admZipInstalled = True,
          extractAllTo = Inl ''Invalid or unsupported zip format'', rmSync = None\<rparr>
         \<lparr>paths = {''/tmp''}, requests = [], console = []\<rparr>))"
proof -
  let ?mc = "\<lparr>config_build = None, config_javaVersion = None, config_platformVersion = None,
          config_packaging = None, config_dependencies = None, files_remove = None\<rparr>"
  let ?ctx = "\<lparr>context_project_domain = ''example.com'', context_module_name = ''shop'',
          fieldValues_buildTool = None, fieldValues_javaVersion = None,
          fieldValues_springBootVersion = None, fieldValues_packaging = None,
          fieldValues_dependencies = None\<rparr>"
  let ?env = "\<lparr>mkdtempSync = Inr ''/tmp/genesis3-spring-Ab12Cd'',
          https_get = (\<lambda>u. Response 200 Finish), mkdirSync = None, admZipInstalled = True,
          extractAllTo = Inl ''Invalid or unsupported zip format'', rmSync = None\<rparr>"
  let ?w = "\<lparr>paths = {''/tmp''}, requests = [], console = []\<rparr>"
  let ?dir = "''/tmp/genesis3-spring-Ab12Cd''"
  have tmp: "mkdtempSync ?env = Inr ?dir" by simp
  have resolved:
    "fst (downloadSpringBootZip (https_get ?env) url outputPath w') = Resolved outputPath"
    for url outputPath w'
    by (simp add: downloadSpringBootZip_resolved)
  have download:
    "fst (downloadSpringBootZip (https_get ?env)
            (buildSpringInitializrUrl (scaffoldOptions ?mc ?ctx))
            (path_join ?dir ''starter.zip'')
            (createFile ?dir
               (emit (LogParameters (loggedParameters (scaffoldOptions ?mc ?ctx))) ?w)))
       \<noteq> Pending"
    unfolding resolved by simp
  note released =
    scaffold_releases_staging_directory
      [OF tmp download, of "''none''" None "LibraryError ''none''"]
  have cleanup: "rmSync ?env = None" by simp
  have "fst (tryBlock ?mc ?env (buildSpringInitializrUrl (scaffoldOptions ?mc ?ctx)) ?dir
               (createFile ?dir
                  (emit (LogParameters (loggedParameters (scaffoldOptions ?mc ?ctx))) ?w)))
        = Rejected (LibraryError ''Invalid or unsupported zip format'')"
    by (simp add: tryBlock_def Let_def downloadSpringBootZip_def extractZipToMemory_def
          emit_def createFile_def path_join_def)
  with released have result: "fst (scaffold ?mc ?ctx ?env ?w)
        = Rejected (LibraryError ''Invalid or unsupported zip format'')" by simp
  have "inside ?dir ?dir" "inside ?dir ''/tmp/genesis3-spring-Ab12Cd/starter.zip''"
    by (simp_all add: inside_def)
  with released cleanup have
    "?dir \<notin> paths (snd (scaffold ?mc ?ctx ?env ?w))"
    "''/tmp/genesis3-spring-Ab12Cd/starter.zip'' \<notin> paths (snd (scaffold ?mc ?ctx ?env ?w))"
    by blast+
  with result show ?thesis by blast
qed


end
